theory Spec2Isabelle
  imports Complex_Main "HOL-Library.Word"
begin

section \<open>Bytes, text and the codecs used by the frame decoder\<close>

text \<open>
  A Python \<open>bytes\<close> value is a list of 8-bit words; a Python \<open>str\<close> is a list of Unicode
  code points (natural numbers), since text decoded from UTF-8 or cp1252 leaves the
  8-bit range.
\<close>

type_synonym byte = "8 word"
type_synonym str = "nat list"

datatype encoding = Utf8 | Latin1 | Cp1252

datatype errors = Strict | Replace

text \<open>
  One step of the UTF-8 decoder on a lead byte \<open>b\<close> and the bytes after it.
  \<open>Decoded cp k\<close>: a code point was read and \<open>k\<close> bytes after the lead byte were consumed.
  \<open>Malformed k\<close>: the lead byte and the \<open>k\<close> bytes after it form the ill-formed span
  that the decoder reports (and, with \<open>errors="replace"\<close>, replaces by U+FFFD).
\<close>

datatype utf8_step = Decoded nat nat | Malformed nat

definition is_continuation :: "byte \<Rightarrow> bool" where
  "is_continuation c = (0x80 \<le> c \<and> c \<le> 0xBF)"

definition second_ok3 :: "byte \<Rightarrow> byte \<Rightarrow> bool" where
  \<comment> \<open>second byte of a three-byte sequence: no overlong form (E0), no surrogate (ED)\<close>
  "second_ok3 b c = (is_continuation c \<and> \<not> (if c < 0xA0 then b = 0xE0 else b = 0xED))"

definition second_ok4 :: "byte \<Rightarrow> byte \<Rightarrow> bool" where
  \<comment> \<open>second byte of a four-byte sequence: no overlong form (F0), nothing above U+10FFFF (F4)\<close>
  "second_ok4 b c = (is_continuation c \<and> \<not> (if c < 0x90 then b = 0xF0 else b = 0xF4))"

definition cont_bits :: "byte \<Rightarrow> nat" where
  "cont_bits c = unat c mod 64"

fun utf8_next :: "byte \<Rightarrow> byte list \<Rightarrow> utf8_step" where
  "utf8_next b rest =
    (if b < 0x80 then Decoded (unat b) 0
     else if b < 0xC2 then Malformed 0
     else if b < 0xE0 then
       (case rest of
          [] \<Rightarrow> Malformed 0
        | c1 # _ \<Rightarrow>
            if is_continuation c1 then Decoded (unat b mod 32 * 64 + cont_bits c1) 1
            else Malformed 0)
     else if b < 0xF0 then
       (case rest of
          [] \<Rightarrow> Malformed 0
        | c1 # r1 \<Rightarrow>
            if \<not> second_ok3 b c1 then Malformed 0
            else (case r1 of
                    [] \<Rightarrow> Malformed 1
                  | c2 # _ \<Rightarrow>
                      if is_continuation c2
                      then Decoded (unat b mod 16 * 4096 + cont_bits c1 * 64 + cont_bits c2) 2
                      else Malformed 1))
     else if b < 0xF5 then
       (case rest of
          [] \<Rightarrow> Malformed 0
        | c1 # r1 \<Rightarrow>
            if \<not> second_ok4 b c1 then Malformed 0
            else (case r1 of
                    [] \<Rightarrow> Malformed 1
                  | c2 # r2 \<Rightarrow>
                      if \<not> is_continuation c2 then Malformed 1
                      else (case r2 of
                              [] \<Rightarrow> Malformed 2
                            | c3 # _ \<Rightarrow>
                                if is_continuation c3
                                then Decoded (unat b mod 8 * 262144 + cont_bits c1 * 4096
                                              + cont_bits c2 * 64 + cont_bits c3) 3
                                else Malformed 2)))
     else Malformed 0)"

text \<open>
  \<open>data.decode("utf-8", errors)\<close>. \<open>None\<close> is the raised \<open>UnicodeDecodeError\<close>.
\<close>

fun utf8_decode :: "errors \<Rightarrow> byte list \<Rightarrow> str option" where
  "utf8_decode m [] = Some []"
| "utf8_decode m (b # rest) =
    (case utf8_next b rest of
       Decoded cp k \<Rightarrow> map_option ((#) cp) (utf8_decode m (drop k rest))
     | Malformed k \<Rightarrow>
         (case m of
            Strict \<Rightarrow> None
          | Replace \<Rightarrow> map_option ((#) 0xFFFD) (utf8_decode m (drop k rest))))"

text \<open>\<open>data.decode("latin-1")\<close>: byte \<open>b\<close> is code point \<open>b\<close>.\<close>

definition latin1_decode :: "byte list \<Rightarrow> str option" where
  "latin1_decode data = Some (map unat data)"

text \<open>
  \<open>data.decode("cp1252", errors)\<close>: the bytes 0x81, 0x8D, 0x8F, 0x90 and 0x9D are
  undefined in Python's cp1252 table.
\<close>

definition cp1252_high :: "nat list" where
  "cp1252_high =
    [0x20AC, 0, 0x201A, 0x0192, 0x201E, 0x2026, 0x2020, 0x2021,
     0x02C6, 0x2030, 0x0160, 0x2039, 0x0152, 0, 0x017D, 0,
     0, 0x2018, 0x2019, 0x201C, 0x201D, 0x2022, 0x2013, 0x2014,
     0x02DC, 0x2122, 0x0161, 0x203A, 0x0153, 0, 0x017E, 0x0178]"

definition cp1252_char :: "byte \<Rightarrow> nat option" where
  "cp1252_char b =
    (if b < 0x80 \<or> 0xA0 \<le> b then Some (unat b)
     else (let cp = cp1252_high ! (unat b - 0x80) in if cp = 0 then None else Some cp))"

fun cp1252_decode :: "errors \<Rightarrow> byte list \<Rightarrow> str option" where
  "cp1252_decode m [] = Some []"
| "cp1252_decode m (b # rest) =
    (case cp1252_char b of
       Some cp \<Rightarrow> map_option ((#) cp) (cp1252_decode m rest)
     | None \<Rightarrow>
         (case m of
            Strict \<Rightarrow> None
          | Replace \<Rightarrow> map_option ((#) 0xFFFD) (cp1252_decode m rest)))"

fun bytes_decode :: "encoding \<Rightarrow> errors \<Rightarrow> byte list \<Rightarrow> str option" where
  "bytes_decode Utf8 m data = utf8_decode m data"
| "bytes_decode Latin1 m data = latin1_decode data"
| "bytes_decode Cp1252 m data = cp1252_decode m data"

subsection \<open>String operations of \<open>_process_data\<close>\<close>

definition is_space :: "nat \<Rightarrow> bool" where
  \<comment> \<open>the characters \<open>str.strip()\<close> removes\<close>
  "is_space c =
    ((0x09 \<le> c \<and> c \<le> 0x0D) \<or> (0x1C \<le> c \<and> c \<le> 0x20) \<or> c = 0x85 \<or> c = 0xA0
     \<or> c = 0x1680 \<or> (0x2000 \<le> c \<and> c \<le> 0x200A) \<or> c = 0x2028 \<or> c = 0x2029
     \<or> c = 0x202F \<or> c = 0x205F \<or> c = 0x3000)"

definition str_strip :: "str \<Rightarrow> str" where
  "str_strip t = rev (dropWhile is_space (rev (dropWhile is_space t)))"

fun str_split :: "nat \<Rightarrow> str \<Rightarrow> str list" where
  \<comment> \<open>\<open>t.split(sep)\<close> for a one-character separator: never the empty list\<close>
  "str_split sep [] = [[]]"
| "str_split sep (c # cs) =
    (if c = sep then [] # str_split sep cs
     else (case str_split sep cs of
             [] \<Rightarrow> [[c]]
           | l # ls \<Rightarrow> (c # l) # ls))"

definition str_startswith :: "str \<Rightarrow> str \<Rightarrow> bool" where
  "str_startswith t p = (take (length p) t = p)"

definition pm :: str where
  "pm = [0x70, 0x6D]"

definition newline :: nat where
  "newline = 0x0A"


subsection \<open>The decoding block of \<open>_process_data\<close>\<close>

text \<open>
  The loop \<open>for encoding in ["utf-8", "latin-1", "cp1252"]\<close>: the first encoding whose
  strict decoding does not raise \<open>UnicodeDecodeError\<close> wins (\<open>break\<close>); the result also
  lists the encodings that were attempted, in order.
\<close>

fun try_encodings :: "encoding list \<Rightarrow> byte list \<Rightarrow> str option \<times> encoding list" where
  "try_encodings [] data = (None, [])"
| "try_encodings (enc # encs) data =
    (case bytes_decode enc Strict data of
       Some t \<Rightarrow> (Some t, [enc])
     | None \<Rightarrow> (let (r, tried) = try_encodings encs data in (r, enc # tried)))"

text \<open>
  The whole block, lines 256 to 267: the decoded text (\<open>None\<close> if an exception left the
  block), the encodings attempted, and whether the \<open>text is None\<close> branch ran.
\<close>

definition decode_data :: "byte list \<Rightarrow> str option \<times> encoding list \<times> bool" where
  "decode_data data =
    (case try_encodings [Utf8, Latin1, Cp1252] data of
       (Some t, tried) \<Rightarrow> (Some t, tried, False)
     | (None, tried) \<Rightarrow> (bytes_decode Utf8 Replace data, tried, True))"

section \<open>The telnet client\<close>

text \<open>
  A parameter map is a Python dict from parameter names to \<open>ParameterData\<close> values; the
  type of the values is declared outside the modelled files and is a type parameter here.
\<close>

type_synonym 'v pmap = "(string \<times> 'v) list"

text \<open>What \<open>self._parser.parse_message(line)\<close> does: raise, or return a map or \<open>None\<close>.\<close>

datatype 'v parsed = Raises | Returns "'v pmap option"

datatype exn =
    HargassnerTimeoutError
  | HargassnerConnectionError
  | ReadFailure string \<comment> \<open>any other \<open>Exception\<close> raised while reading\<close>

text \<open>The texts written to \<open>_stats["last_error"]\<close>.\<close>

datatype error_text =
    DataStale rat \<comment> \<open>\<open>f"Data stale for {time_since_update:.1f}s"\<close>\<close>
  | DeadConnection int \<comment> \<open>\<open>f"Dead connection ({n} timeouts)"\<close>\<close>
  | ConnectionTimeout \<comment> \<open>\<open>f"Connection timeout: {err}"\<close>\<close>
  | ConnectionFailed \<comment> \<open>\<open>f"Connection failed: {err}"\<close>\<close>
  | ErrorText exn \<comment> \<open>\<open>str(err)\<close>\<close>

record statistics =
  messages_received :: int
  messages_parsed :: int
  parse_errors :: int
  reconnections :: int
  last_error :: "error_text option"

text \<open>
  The attributes of \<open>HargassnerTelnetClient\<close>. \<open>reader\<close> and \<open>writer\<close> say whether the
  attribute holds a stream (rather than \<open>None\<close>); times are seconds as rationals;
  callbacks are values of a type \<open>'c\<close> compared by equality.
\<close>

record ('c, 'v) client =
  reader :: bool
  writer :: bool
  connected :: bool
  running :: bool
  reconnect_delay :: rat
  consecutive_timeouts :: int
  latest_data :: "'v pmap"
  last_update :: "rat option"
  stats :: statistics
  data_callbacks :: "'c list"

text \<open>
  What one call \<open>callback(parsed_data)\<close> of a registered handler does, as far as the client
  can tell: it returns or raises an \<open>Exception\<close>; it may call \<open>register_callback\<close> and
  \<open>unregister_callback\<close> (the synchronous public methods that change the client); and,
  since it is given the dict object that \<open>_latest_data\<close> refers to, it may change the
  entries of that dict.
\<close>

datatype 'c registry_op = Register 'c | Unregister 'c

record ('c, 'v) reaction =
  raises :: bool
  registry_ops :: "'c registry_op list"
  map_after :: "'v pmap"

text \<open>
  The constants imported from \<open>const\<close>, the parser, and the behaviour of the handlers (what
  a call does, given the handler and the entries of the map it receives) are parameters.
\<close>

record ('c, 'v) params =
  telnet_reconnect_delay :: rat
  telnet_max_reconnect_delay :: rat
  telnet_data_staleness_timeout :: rat
  telnet_max_consecutive_timeouts :: int
  parse_message :: "str \<Rightarrow> 'v parsed"
  callback_reaction :: "'c \<Rightarrow> 'v pmap \<Rightarrow> ('c, 'v) reaction"

definition init :: "('c, 'v) params \<Rightarrow> ('c, 'v) client" where
  "init cfg =
    \<lparr>reader = False, writer = False, connected = False, running = False,
     reconnect_delay = telnet_reconnect_delay cfg, consecutive_timeouts = 0,
     latest_data = [], last_update = None,
     stats = \<lparr>messages_received = 0, messages_parsed = 0, parse_errors = 0,
              reconnections = 0, last_error = None\<rparr>,
     data_callbacks = []\<rparr>"

definition register_callback :: "'c \<Rightarrow> ('c, 'v) client \<Rightarrow> ('c, 'v) client" where
  "register_callback cb s =
    (if cb \<notin> set (data_callbacks s) then s\<lparr>data_callbacks := data_callbacks s @ [cb]\<rparr> else s)"

definition unregister_callback :: "'c \<Rightarrow> ('c, 'v) client \<Rightarrow> ('c, 'v) client" where
  "unregister_callback cb s =
    (if cb \<in> set (data_callbacks s) then s\<lparr>data_callbacks := remove1 cb (data_callbacks s)\<rparr>
     else s)"

subsection \<open>What the environment does in one iteration of the receive loop\<close>

datatype connect_result =
    Opened
  | OpenTimeout \<comment> \<open>\<open>asyncio.TimeoutError\<close> from \<open>open_connection\<close>\<close>
  | OpenOSError \<comment> \<open>\<open>OSError\<close> from \<open>open_connection\<close>\<close>
  | KeepaliveOSError \<comment> \<open>\<open>OSError\<close> from \<open>setsockopt\<close>, after the streams were assigned\<close>

datatype read_result =
    ReadBytes "byte list" \<comment> \<open>the empty list is end of file\<close>
  | ReadTimeout
  | ReadRaises string

record env =
  connect_result :: connect_result
  clock :: rat \<comment> \<open>\<open>datetime.now()\<close> at the staleness check\<close>
  read_result :: read_result
  store_clock :: rat \<comment> \<open>\<open>datetime.now()\<close> when a parsed map is stored\<close>

text \<open>
  The observable actions of the loop, in the order they happen. A \<open>Callback\<close> records the
  handler, the entries of its argument and the entries of \<open>_latest_data\<close> at the moment of
  the call.
\<close>

datatype ('c, 'v) action =
    OpenConnection
  | CloseWriter
  | Read
  | Sleep rat
  | Parse str
  | Callback 'c "'v pmap" "'v pmap"
  | CallbackError 'c \<comment> \<open>\<open>_LOGGER.error("Error in data callback: ...")\<close>\<close>

subsection \<open>\<open>_connect\<close> and \<open>_close_connection\<close>\<close>

definition set_last_error :: "error_text \<Rightarrow> ('c, 'v) client \<Rightarrow> ('c, 'v) client" where
  "set_last_error t s = s\<lparr>stats := (stats s)\<lparr>last_error := Some t\<rparr>\<rparr>"

definition connect :: "env \<Rightarrow> ('c, 'v) client \<Rightarrow> exn option \<times> ('c, 'v) client" where
  "connect e s =
    (case connect_result e of
       OpenTimeout \<Rightarrow> (Some HargassnerTimeoutError, set_last_error ConnectionTimeout s)
     | OpenOSError \<Rightarrow> (Some HargassnerConnectionError, set_last_error ConnectionFailed s)
     | KeepaliveOSError \<Rightarrow>
         (Some HargassnerConnectionError,
          set_last_error ConnectionFailed (s\<lparr>reader := True, writer := True\<rparr>))
     | Opened \<Rightarrow>
         (None,
          s\<lparr>reader := True, writer := True, connected := True, consecutive_timeouts := 0,
            stats := (stats s)\<lparr>reconnections := reconnections (stats s) + 1\<rparr>\<rparr>))"

definition close_connection ::
  "('c, 'v) client \<Rightarrow> ('c, 'v) client \<times> ('c, 'v) action list" where
  "close_connection s =
    (if writer s then (s\<lparr>writer := False, reader := False, connected := False\<rparr>, [CloseWriter])
     else (s\<lparr>connected := False\<rparr>, []))"

subsection \<open>\<open>_process_data\<close>\<close>

text \<open>The state of the client after one handler call: the dict changed, the registry changed.\<close>

fun apply_registry_op :: "'c registry_op \<Rightarrow> ('c, 'v) client \<Rightarrow> ('c, 'v) client" where
  "apply_registry_op (Register cb) s = register_callback cb s"
| "apply_registry_op (Unregister cb) s = unregister_callback cb s"

definition after_call :: "('c, 'v) params \<Rightarrow> 'c \<Rightarrow> ('c, 'v) client \<Rightarrow> ('c, 'v) client" where
  "after_call cfg cb s =
    (let r = callback_reaction cfg cb (latest_data s)
     in fold apply_registry_op (registry_ops r) (s\<lparr>latest_data := map_after r\<rparr>))"

text \<open>
  The measure that makes the dispatch loop end: handlers not in the registry plus the
  length of the registry. Registering keeps it, unregistering does not raise it.
\<close>

definition registry_room :: "('c::finite) list \<Rightarrow> nat" where
  "registry_room cbs = card (UNIV - set cbs) + length cbs"

text \<open>
  The loop \<open>for callback in self._data_callbacks\<close>, each call in its own \<open>try\<close>. The list
  iterator reads the live list by position: the handler at position \<open>i\<close> is called, then
  position \<open>i + 1\<close> of the list as the call left it, until the position is past the end.
  The handlers that can ever be registered form a finite type, so the loop ends.
\<close>

function notify_from ::
  "('c::finite, 'v) params \<Rightarrow> nat \<Rightarrow> ('c, 'v) client \<Rightarrow> ('c, 'v) client \<times> ('c, 'v) action list" where
  "notify_from cfg i s =
    (if i < length (data_callbacks s) then
       (let cb = data_callbacks s ! i;
            r = callback_reaction cfg cb (latest_data s);
            called = Callback cb (latest_data s) (latest_data s) #
                       (if raises r then [CallbackError cb] else []);
            (s', a) = notify_from cfg (Suc i) (after_call cfg cb s)
        in (s', called @ a))
     else (s, []))"
  by pat_completeness auto

lemma registry_room_register:
  "registry_room (data_callbacks (register_callback cb s)) = registry_room (data_callbacks s)"
proof (cases "cb \<in> set (data_callbacks s)")
  case True
  then show ?thesis by (simp add: register_callback_def)
next
  case False
  have eq: "UNIV - set (data_callbacks s @ [cb]) = (UNIV - set (data_callbacks s)) - {cb}"
    by auto
  have "cb \<in> UNIV - set (data_callbacks s)"
    using False by simp
  then have "Suc (card ((UNIV - set (data_callbacks s)) - {cb})) =
      card (UNIV - set (data_callbacks s))"
    by (intro card_Suc_Diff1) simp_all
  then have "Suc (card (UNIV - set (data_callbacks s @ [cb]))) =
      card (UNIV - set (data_callbacks s))"
    by (simp only: eq)
  then show ?thesis
    using False by (simp add: register_callback_def registry_room_def)
qed

lemma registry_room_unregister:
  "registry_room (data_callbacks (unregister_callback cb s)) \<le> registry_room (data_callbacks s)"
proof (cases "cb \<in> set (data_callbacks s)")
  case False
  then show ?thesis by (simp add: unregister_callback_def)
next
  case True
  have "x \<in> set (remove1 cb (data_callbacks s))"
    if "x \<in> set (data_callbacks s)" "x \<noteq> cb" for x
    using that by (simp add: in_set_remove1)
  then have "UNIV - set (remove1 cb (data_callbacks s)) \<subseteq> insert cb (UNIV - set (data_callbacks s))"
    by auto
  then have "card (UNIV - set (remove1 cb (data_callbacks s))) \<le>
      card (insert cb (UNIV - set (data_callbacks s)))"
    by (intro card_mono) simp_all
  also have "\<dots> \<le> Suc (card (UNIV - set (data_callbacks s)))"
    by (simp add: card_insert_if)
  finally have "card (UNIV - set (remove1 cb (data_callbacks s))) \<le>
      Suc (card (UNIV - set (data_callbacks s)))" .
  moreover have "0 < length (data_callbacks s)"
    using True by (rule length_pos_if_in_set)
  ultimately have "card (UNIV - set (remove1 cb (data_callbacks s))) + (length (data_callbacks s) - 1)
      \<le> card (UNIV - set (data_callbacks s)) + length (data_callbacks s)"
    by arith
  then show ?thesis
    using True by (simp add: unregister_callback_def registry_room_def length_remove1)
qed

lemma registry_room_ops:
  "registry_room (data_callbacks (fold apply_registry_op ops s)) \<le> registry_room (data_callbacks s)"
proof (induction ops arbitrary: s)
  case Nil
  show ?case by simp
next
  case (Cons op ops)
  have "registry_room (data_callbacks (apply_registry_op op s)) \<le> registry_room (data_callbacks s)"
    by (cases op) (simp_all add: registry_room_register registry_room_unregister)
  then show ?case
    using Cons.IH [of "apply_registry_op op s"] by simp
qed

lemma registry_room_after_call:
  "registry_room (data_callbacks (after_call cfg cb s)) \<le> registry_room (data_callbacks s)"
  using registry_room_ops [of "registry_ops (callback_reaction cfg cb (latest_data s))"
      "s\<lparr>latest_data := map_after (callback_reaction cfg cb (latest_data s))\<rparr>"]
  by (simp add: after_call_def Let_def)

termination notify_from
proof (relation "measure (\<lambda>(cfg, i, s). registry_room (data_callbacks s) - i)")
  show "wf (measure (\<lambda>(cfg, i, s). registry_room (data_callbacks s) - i))"
    by simp
next
  fix cfg :: "('c::finite, 'v) params" and i and s :: "('c, 'v) client"
    and cb r called
  assume i: "i < length (data_callbacks s)" and cb: "cb = data_callbacks s ! i"
  have "length (data_callbacks s) \<le> registry_room (data_callbacks s)"
    by (simp add: registry_room_def)
  then show "((cfg, Suc i, after_call cfg cb s), cfg, i, s)
      \<in> measure (\<lambda>(cfg, i, s). registry_room (data_callbacks s) - i)"
    using i registry_room_after_call [of cfg cb s] by simp
qed

declare notify_from.simps [simp del]

text \<open>The loop over the lines of the decoded text; \<open>now\<close> is the clock when a map is stored.\<close>

fun process_lines ::
  "('c::finite, 'v) params \<Rightarrow> rat \<Rightarrow> str list \<Rightarrow> ('c, 'v) client
    \<Rightarrow> ('c, 'v) client \<times> ('c, 'v) action list" where
  "process_lines cfg now [] s = (s, [])"
| "process_lines cfg now (l # ls) s =
    (let line = str_strip l in
     if line = [] \<or> \<not> str_startswith line pm then process_lines cfg now ls s
     else
       (case parse_message cfg line of
          Raises \<Rightarrow>
            (let (s', a) =
               process_lines cfg now ls
                 (s\<lparr>stats := (stats s)\<lparr>parse_errors := parse_errors (stats s) + 1\<rparr>\<rparr>)
             in (s', Parse line # a))
        | Returns None \<Rightarrow>
            (let (s', a) = process_lines cfg now ls s in (s', Parse line # a))
        | Returns (Some m) \<Rightarrow>
            if m = [] then
              (let (s', a) = process_lines cfg now ls s in (s', Parse line # a))
            else
              (let s1 = s\<lparr>latest_data := m, last_update := Some now\<rparr>;
                   s2 = s1\<lparr>stats := (stats s1)\<lparr>messages_parsed := messages_parsed (stats s1) + 1\<rparr>\<rparr>;
                   (s3, a) = notify_from cfg 0 s2
               in (s3, Parse line # a))))"

definition process_data ::
  "('c::finite, 'v) params \<Rightarrow> env \<Rightarrow> byte list \<Rightarrow> ('c, 'v) client
    \<Rightarrow> ('c, 'v) client \<times> ('c, 'v) action list" where
  "process_data cfg e data s =
    (let s1 = s\<lparr>stats := (stats s)\<lparr>messages_received := messages_received (stats s) + 1\<rparr>\<rparr>
     in case fst (decode_data data) of
          None \<Rightarrow> (s1\<lparr>stats := (stats s1)\<lparr>parse_errors := parse_errors (stats s1) + 1\<rparr>\<rparr>, [])
        | Some t \<Rightarrow> process_lines cfg (store_clock e) (str_split newline (str_strip t)) s1)"

subsection \<open>\<open>_receiver_loop\<close>\<close>

text \<open>The handler \<open>except Exception as err\<close> of the loop body.\<close>

definition on_exception ::
  "('c, 'v) params \<Rightarrow> exn \<Rightarrow> ('c, 'v) client \<Rightarrow> ('c, 'v) client \<times> ('c, 'v) action list" where
  "on_exception cfg err s =
    (let s1 = (set_last_error (ErrorText err) s)\<lparr>connected := False, consecutive_timeouts := 0\<rparr>;
         (s2, a) = close_connection s1;
         d = reconnect_delay s2
     in (s2\<lparr>reconnect_delay := min (d * 2) (telnet_max_reconnect_delay cfg)\<rparr>, a @ [Sleep d]))"

text \<open>
  The staleness test: \<open>Some d\<close> when a last update exists and the \<open>d\<close> seconds since it
  exceed the timeout.
\<close>

definition stale_for :: "('c, 'v) params \<Rightarrow> env \<Rightarrow> ('c, 'v) client \<Rightarrow> rat option" where
  "stale_for cfg e s =
    (case last_update s of
       None \<Rightarrow> None
     | Some u \<Rightarrow>
         (let time_since_update = clock e - u
          in if time_since_update > telnet_data_staleness_timeout cfg
             then Some time_since_update else None))"

text \<open>The part of the loop body after the connection is ensured and the data is not stale.\<close>

definition read_step ::
  "('c::finite, 'v) params \<Rightarrow> env \<Rightarrow> ('c, 'v) client \<Rightarrow> ('c, 'v) client \<times> ('c, 'v) action list" where
  "read_step cfg e s =
    (if reader s then
       (case read_result e of
          ReadRaises x \<Rightarrow>
            (let (s', a) = on_exception cfg (ReadFailure x) s in (s', Read # a))
        | ReadTimeout \<Rightarrow>
            (let s1 = s\<lparr>consecutive_timeouts := consecutive_timeouts s + 1\<rparr>
             in if consecutive_timeouts s1 \<ge> telnet_max_consecutive_timeouts cfg then
                  (let s2 = (set_last_error (DeadConnection (consecutive_timeouts s1)) s1)
                              \<lparr>connected := False, consecutive_timeouts := 0\<rparr>;
                       (s3, a) = close_connection s2
                   in (s3, Read # a))
                else (s1, [Read]))
        | ReadBytes data \<Rightarrow>
            if data = [] then (s\<lparr>connected := False, consecutive_timeouts := 0\<rparr>, [Read])
            else
              (let (s1, a) = process_data cfg e data s
               in (s1\<lparr>reconnect_delay := telnet_reconnect_delay cfg,
                      consecutive_timeouts := 0\<rparr>, Read # a)))
     else (s, []))"

text \<open>One pass through the body of \<open>while self._running\<close>.\<close>

definition receiver_iter ::
  "('c::finite, 'v) params \<Rightarrow> env \<Rightarrow> ('c, 'v) client \<Rightarrow> ('c, 'v) client \<times> ('c, 'v) action list" where
  "receiver_iter cfg e s =
    (let (r, s1, a1) =
           (if \<not> connected s then (let (r, s') = connect e s in (r, s', [OpenConnection]))
            else (None, s, []))
     in case r of
          Some err \<Rightarrow> (let (s2, a2) = on_exception cfg err s1 in (s2, a1 @ a2))
        | None \<Rightarrow>
            (case stale_for cfg e s1 of
               Some d \<Rightarrow>
                 (let s2 = (set_last_error (DataStale d) s1)\<lparr>connected := False\<rparr>;
                      (s3, a3) = close_connection s2
                  in (s3, a1 @ a3))
             | None \<Rightarrow> (let (s2, a2) = read_step cfg e s1 in (s2, a1 @ a2))))"

text \<open>
  The loop, run for as many iterations as there are environment inputs (the loop itself
  ends only when \<open>_running\<close> is cleared).
\<close>

fun receiver_loop ::
  "('c::finite, 'v) params \<Rightarrow> env list \<Rightarrow> ('c, 'v) client \<Rightarrow> ('c, 'v) client \<times> ('c, 'v) action list" where
  "receiver_loop cfg [] s = (s, [])"
| "receiver_loop cfg (e # es) s =
    (if running s then
       (let (s1, a1) = receiver_iter cfg e s;
            (s2, a2) = receiver_loop cfg es s1
        in (s2, a1 @ a2))
     else (s, []))"

text \<open>\<open>async_start\<close> up to the creation of the receiver task.\<close>

definition async_start :: "('c, 'v) client \<Rightarrow> ('c, 'v) client" where
  "async_start s = (if running s then s else s\<lparr>running := True\<rparr>)"


subsection \<open>Candidate frames\<close>

text \<open>
  The candidate frames of a decoded text in the words of the specification: the lines of
  the trimmed text, each trimmed, that are not empty and start with the marker \<open>pm\<close>.
\<close>

definition candidate_frames :: "str \<Rightarrow> str list" where
  "candidate_frames t =
    filter (\<lambda>l. l \<noteq> [] \<and> str_startswith l pm) (map str_strip (str_split newline (str_strip t)))"

definition chunk_frames :: "byte list \<Rightarrow> str list" where
  "chunk_frames data = (case fst (decode_data data) of None \<Rightarrow> [] | Some t \<Rightarrow> candidate_frames t)"

text \<open>A frame parses successfully when the parser returns a map that is not empty.\<close>

definition parses_to :: "('c, 'v) params \<Rightarrow> str \<Rightarrow> 'v pmap \<Rightarrow> bool" where
  "parses_to cfg l m = (parse_message cfg l = Returns (Some m) \<and> m \<noteq> [])"

definition parse_fails :: "('c, 'v) params \<Rightarrow> str \<Rightarrow> bool" where
  "parse_fails cfg l =
    (case parse_message cfg l of
       Raises \<Rightarrow> True
     | Returns None \<Rightarrow> True
     | Returns (Some m) \<Rightarrow> m = [])"

fun is_callback :: "('c, 'v) action \<Rightarrow> bool" where
  "is_callback (Callback cb m d) = True"
| "is_callback _ = False"

section \<open>The coordinator's registrations\<close>

text \<open>
  Attribute lookup on a \<open>HargassnerTelnetClient\<close>: the names the class body and
  \<open>__init__\<close> define. A method that takes one callback is given with what it does; the
  other attributes are only known to exist.
\<close>

datatype ('c, 'v) attribute =
    CallbackMethod "'c \<Rightarrow> ('c, 'v) client \<Rightarrow> ('c, 'v) client"
  | OtherAttribute

definition other_attributes :: "string list" where
  "other_attributes =
    [''_host'', ''_port'', ''_firmware_version'', ''_reader'', ''_writer'', ''_connected'',
     ''_running'', ''_receiver_task'', ''_reconnect_delay'', ''_consecutive_timeouts'',
     ''_parser'', ''_latest_data'', ''_data_lock'', ''_last_update'', ''_stats'',
     ''_data_callbacks'', ''async_start'', ''async_stop'', ''_receiver_loop'', ''_connect'',
     ''_close_connection'', ''_process_data'', ''get_latest_data'', ''connected'',
     ''last_update'', ''statistics'', ''expected_message_length'']"

definition client_getattr :: "string \<Rightarrow> ('c, 'v) attribute option" where
  "client_getattr name =
    (if name = ''register_callback'' then Some (CallbackMethod register_callback)
     else if name = ''unregister_callback'' then Some (CallbackMethod unregister_callback)
     else if name \<in> set other_attributes then Some OtherAttribute
     else None)"

datatype py_error = AttributeError string | TypeError string

text \<open>\<open>client.name(handler)\<close>.\<close>

definition call_with_callback ::
  "string \<Rightarrow> 'c \<Rightarrow> ('c, 'v) client \<Rightarrow> py_error + ('c, 'v) client" where
  "call_with_callback name handler s =
    (case client_getattr name of
       None \<Rightarrow> Inl (AttributeError name)
     | Some OtherAttribute \<Rightarrow> Inl (TypeError name)
     | Some (CallbackMethod f) \<Rightarrow> Inr (f handler s))"

datatype handler = Handle_data_update | Handle_connection_change

text \<open>
  The last two statements of \<open>HargassnerDataUpdateCoordinator.__init__\<close>, on the client
  it was given.
\<close>

definition coordinator_init ::
  "(handler, 'v) client \<Rightarrow> py_error + (handler, 'v) client" where
  "coordinator_init s =
    (case call_with_callback ''register_callback'' Handle_data_update s of
       Inl err \<Rightarrow> Inl err
     | Inr s1 \<Rightarrow> call_with_callback ''register_connection_callback'' Handle_connection_change s1)"

section \<open>Objects and references: \<open>get_latest_data\<close>\<close>

text \<open>
  For aliasing, Python values are modelled with an explicit store of dict objects: a
  value is a primitive or a reference to a dict, a dict is a list of entries in insertion
  order, and the store is a list of dicts addressed by position. \<open>None\<close> results stand for
  operations on an address that holds no object.
\<close>

datatype pyval = PNone | PBool bool | PNum rat | PStr string | PRef nat

type_synonym pydict = "(string \<times> pyval) list"

type_synonym heap = "pydict list"

text \<open>The client object: \<open>_latest_data\<close> is a reference to a dict, \<open>_last_update\<close> a time.\<close>

record client_obj =
  objects :: heap
  latest_data_ref :: nat
  last_update_time :: "rat option"

fun setitem :: "string \<Rightarrow> 'v \<Rightarrow> (string \<times> 'v) list \<Rightarrow> (string \<times> 'v) list" where
  \<comment> \<open>the entries of \<open>d\<close> after \<open>d[k] = v\<close>\<close>
  "setitem k v [] = [(k, v)]"
| "setitem k v ((k', v') # d) = (if k' = k then (k, v) # d else (k', v') # setitem k v d)"

definition dict_setitem :: "heap \<Rightarrow> nat \<Rightarrow> string \<Rightarrow> pyval \<Rightarrow> heap option" where
  \<comment> \<open>\<open>d[k] = v\<close> on the dict at address \<open>a\<close>\<close>
  "dict_setitem h a k v = (if a < length h then Some (h[a := setitem k v (h ! a)]) else None)"

definition dict_delitem :: "heap \<Rightarrow> nat \<Rightarrow> string \<Rightarrow> heap option" where
  \<comment> \<open>\<open>d.pop(k, None)\<close> on the dict at address \<open>a\<close>\<close>
  "dict_delitem h a k =
    (if a < length h then Some (h[a := filter (\<lambda>(k', v'). k' \<noteq> k) (h ! a)]) else None)"

definition dict_getitem :: "heap \<Rightarrow> nat \<Rightarrow> string \<Rightarrow> pyval option" where
  \<comment> \<open>\<open>d[k]\<close>; \<open>None\<close> is \<open>KeyError\<close>\<close>
  "dict_getitem h a k = (if a < length h then map_of (h ! a) k else None)"

definition dict_copy :: "heap \<Rightarrow> nat \<Rightarrow> (heap \<times> nat) option" where
  \<comment> \<open>\<open>d.copy()\<close>: a new dict object with the same entries; the new store and its address\<close>
  "dict_copy h a = (if a < length h then Some (h @ [h ! a], length h) else None)"

definition get_latest_data :: "client_obj \<Rightarrow> (client_obj \<times> nat) option" where
  "get_latest_data c =
    (case dict_copy (objects c) (latest_data_ref c) of
       None \<Rightarrow> None
     | Some (h, r) \<Rightarrow> Some (c\<lparr>objects := h\<rparr>, r))"

text \<open>\<open>d[k1][k2] = v\<close> on the dict at address \<open>a\<close>.\<close>

definition nested_setitem ::
  "heap \<Rightarrow> nat \<Rightarrow> string \<Rightarrow> string \<Rightarrow> pyval \<Rightarrow> heap option" where
  "nested_setitem h a k1 k2 v =
    (case dict_getitem h a k1 of
       Some (PRef b) \<Rightarrow> dict_setitem h b k2 v
     | _ \<Rightarrow> None)"

text \<open>
  What a reader sees when it follows a value through the store, down to a given depth.
\<close>

datatype seen =
    SNone | SBool bool | SNum rat | SStr string
  | SDict "(string \<times> seen) list"
  | SDeeper \<comment> \<open>a dict below the depth looked at\<close>
  | SDangling

fun look :: "nat \<Rightarrow> heap \<Rightarrow> pyval \<Rightarrow> seen" where
  "look n h PNone = SNone"
| "look n h (PBool b) = SBool b"
| "look n h (PNum x) = SNum x"
| "look n h (PStr x) = SStr x"
| "look 0 h (PRef a) = SDeeper"
| "look (Suc n) h (PRef a) =
    (if a < length h then SDict (map (\<lambda>(k, v). (k, look n h v)) (h ! a)) else SDangling)"

text \<open>
  A store is well formed when every reference in it points to one of its objects, as
  every reference of a running Python program does.
\<close>

fun val_ok :: "heap \<Rightarrow> pyval \<Rightarrow> bool" where
  "val_ok h (PRef a) = (a < length h)"
| "val_ok h _ = True"

definition wf_heap :: "heap \<Rightarrow> bool" where
  "wf_heap h = list_all (\<lambda>d. list_all (\<lambda>kv. val_ok h (snd kv)) d) h"

text \<open>
  The client after the coordinator's data handler ran on the stored map: the handler adds
  the entry \<open>_connection\<close>, a dict of its own, to the map it is given, and that map is the
  one \<open>_latest_data\<close> refers to.
\<close>

definition sample_store :: client_obj where
  "sample_store =
    \<lparr>objects = [[(''_connection'', PRef 1)], [(''connected'', PBool True)]],
     latest_data_ref = 0, last_update_time = Some 0\<rparr>"

section \<open>Concrete inputs\<close>

text \<open>
  Four handlers: one that raises, one that only returns, one that unregisters itself when
  called, and one that stores an entry \<open>_connection\<close> in the map it is given, as the
  coordinator's data handler does.
\<close>

datatype sample_handler = Failing | Plain | Leaving | Marking

instantiation sample_handler :: finite
begin

instance
proof
  have eq: "(UNIV :: sample_handler set) = {Failing, Plain, Leaving, Marking}"
    by (auto intro: sample_handler.exhaust)
  show "finite (UNIV :: sample_handler set)"
    by (subst eq) simp
qed

end

fun sample_reaction :: "sample_handler \<Rightarrow> int pmap \<Rightarrow> (sample_handler, int) reaction" where
  "sample_reaction Failing m = \<lparr>raises = True, registry_ops = [], map_after = m\<rparr>"
| "sample_reaction Plain m = \<lparr>raises = False, registry_ops = [], map_after = m\<rparr>"
| "sample_reaction Leaving m = \<lparr>raises = False, registry_ops = [Unregister Leaving], map_after = m\<rparr>"
| "sample_reaction Marking m =
    \<lparr>raises = False, registry_ops = [], map_after = setitem ''_connection'' 1 m\<rparr>"

text \<open>
  A configuration with a small parser: the bare marker parses to nothing, a line ending
  in \<open>!\<close> makes the parser raise, any other line parses to a one-entry map.
\<close>

definition sample_parse :: "str \<Rightarrow> int parsed" where
  "sample_parse l =
    (if l = pm then Returns None
     else if last l = 0x21 then Raises
     else Returns (Some [(''length'', int (length l))]))"

definition sample_params :: "(sample_handler, int) params" where
  "sample_params =
    \<lparr>telnet_reconnect_delay = 5, telnet_max_reconnect_delay = 300,
     telnet_data_staleness_timeout = 60, telnet_max_consecutive_timeouts = 3,
     parse_message = sample_parse, callback_reaction = sample_reaction\<rparr>"

definition refused :: env where
  "refused = \<lparr>connect_result = OpenOSError, clock = 0, read_result = ReadTimeout, store_clock = 0\<rparr>"

text \<open>
  Environment inputs: a connection that opens and then stays silent; one that delivers the
  chunk \<open>xx\<close> (no frame) at clock \<open>t\<close>; one that delivers the frame \<open>pm 1\<close> at clock \<open>t\<close>.
\<close>

definition silent :: env where
  "silent = \<lparr>connect_result = Opened, clock = 0, read_result = ReadTimeout, store_clock = 0\<rparr>"

definition garbage_at :: "rat \<Rightarrow> env" where
  "garbage_at t =
    \<lparr>connect_result = Opened, clock = t, read_result = ReadBytes [0x78, 0x78, 0x0A],
     store_clock = t\<rparr>"

definition frame_at :: "rat \<Rightarrow> env" where
  "frame_at t =
    \<lparr>connect_result = Opened, clock = t,
     read_result = ReadBytes [0x70, 0x6D, 0x20, 0x31, 0x0A], store_clock = t\<rparr>"

text \<open>The chunk with the three lines \<open>pm\<close>, \<open>pm 1\<close> and \<open>pm 22\<close>.\<close>

definition three_frames :: "byte list" where
  "three_frames = [0x70, 0x6D, 0x0A, 0x70, 0x6D, 0x20, 0x31, 0x0A, 0x70, 0x6D, 0x20, 0x32, 0x32]"

text \<open>Actions that \<open>_process_data\<close> performs, as opposed to those of the loop around it.\<close>

fun quiet :: "('c, 'v) action \<Rightarrow> bool" where
  "quiet (Parse l) = True"
| "quiet (Callback c m d) = True"
| "quiet (CallbackError c) = True"
| "quiet _ = False"

fun is_parse :: "('c, 'v) action \<Rightarrow> bool" where
  "is_parse (Parse l) = True"
| "is_parse _ = False"

text \<open>
  Handlers that leave the registry and the map alone: every handler of the list, called
  with the map \<open>m\<close>, performs no registry operation and leaves the entries as they are.
\<close>

definition handlers_passive :: "('c, 'v) params \<Rightarrow> 'c list \<Rightarrow> 'v pmap \<Rightarrow> bool" where
  "handlers_passive cfg cbs m =
    list_all (\<lambda>cb. registry_ops (callback_reaction cfg cb m) = [] \<and>
                    map_after (callback_reaction cfg cb m) = m) cbs"

section \<open>Properties of \<open>_process_data\<close> and of one iteration\<close>

declare utf8_next.simps [simp del]

lemma notify_from_done:
  "\<not> i < length (data_callbacks s) \<Longrightarrow> notify_from cfg i s = (s, [])"
  by (simp add: notify_from.simps)

lemma notify_from_step:
  "i < length (data_callbacks s) \<Longrightarrow>
   notify_from cfg i s =
     (fst (notify_from cfg (Suc i) (after_call cfg (data_callbacks s ! i) s)),
      Callback (data_callbacks s ! i) (latest_data s) (latest_data s) #
        (if raises (callback_reaction cfg (data_callbacks s ! i) (latest_data s))
         then [CallbackError (data_callbacks s ! i)] else []) @
        snd (notify_from cfg (Suc i) (after_call cfg (data_callbacks s ! i) s)))"
  by (subst notify_from.simps) (simp add: Let_def split_beta)

lemma registry_ops_frame:
  "reader (fold apply_registry_op ops s) = reader s \<and>
   writer (fold apply_registry_op ops s) = writer s \<and>
   connected (fold apply_registry_op ops s) = connected s \<and>
   running (fold apply_registry_op ops s) = running s \<and>
   reconnect_delay (fold apply_registry_op ops s) = reconnect_delay s \<and>
   consecutive_timeouts (fold apply_registry_op ops s) = consecutive_timeouts s \<and>
   latest_data (fold apply_registry_op ops s) = latest_data s \<and>
   last_update (fold apply_registry_op ops s) = last_update s \<and>
   stats (fold apply_registry_op ops s) = stats s"
proof (induction ops arbitrary: s)
  case Nil
  show ?case by simp
next
  case (Cons op ops)
  show ?case
    by (cases op) (simp_all add: Cons.IH register_callback_def unregister_callback_def)
qed

lemma after_call_frame:
  "reader (after_call cfg cb s) = reader s \<and>
   writer (after_call cfg cb s) = writer s \<and>
   connected (after_call cfg cb s) = connected s \<and>
   running (after_call cfg cb s) = running s \<and>
   reconnect_delay (after_call cfg cb s) = reconnect_delay s \<and>
   consecutive_timeouts (after_call cfg cb s) = consecutive_timeouts s \<and>
   last_update (after_call cfg cb s) = last_update s \<and>
   stats (after_call cfg cb s) = stats s"
  by (simp add: after_call_def Let_def registry_ops_frame)

lemma notify_from_frame:
  "reader (fst (notify_from cfg i s)) = reader s \<and>
   writer (fst (notify_from cfg i s)) = writer s \<and>
   connected (fst (notify_from cfg i s)) = connected s \<and>
   running (fst (notify_from cfg i s)) = running s \<and>
   reconnect_delay (fst (notify_from cfg i s)) = reconnect_delay s \<and>
   consecutive_timeouts (fst (notify_from cfg i s)) = consecutive_timeouts s \<and>
   last_update (fst (notify_from cfg i s)) = last_update s \<and>
   stats (fst (notify_from cfg i s)) = stats s"
proof (induction cfg i s rule: notify_from.induct)
  case (1 cfg i s)
  show ?case
  proof (cases "i < length (data_callbacks s)")
    case True
    from "1.IH" [OF True refl refl refl] show ?thesis
      by (simp add: notify_from_step [OF True] after_call_frame)
  next
    case False
    then show ?thesis by (simp add: notify_from_done)
  qed
qed

lemma notify_from_quiet: "a \<in> set (snd (notify_from cfg i s)) \<Longrightarrow> quiet a"
proof (induction cfg i s rule: notify_from.induct)
  case (1 cfg i s)
  show ?case
  proof (cases "i < length (data_callbacks s)")
    case True
    from "1.IH" [OF True refl refl refl] "1.prems" show ?thesis
      by (auto simp: notify_from_step [OF True] split: if_splits)
  next
    case False
    then show ?thesis using "1.prems" by (simp add: notify_from_done)
  qed
qed

lemma notify_from_no_parse: "filter is_parse (snd (notify_from cfg i s)) = []"
proof (induction cfg i s rule: notify_from.induct)
  case (1 cfg i s)
  show ?case
  proof (cases "i < length (data_callbacks s)")
    case True
    from "1.IH" [OF True refl refl refl] show ?thesis
      by (simp add: notify_from_step [OF True])
  next
    case False
    then show ?thesis by (simp add: notify_from_done)
  qed
qed

lemma after_call_passive:
  assumes "registry_ops (callback_reaction cfg cb (latest_data s)) = []"
    and "map_after (callback_reaction cfg cb (latest_data s)) = latest_data s"
  shows "after_call cfg cb s = s"
  using assms by (simp add: after_call_def Let_def)

lemma notify_from_passive:
  "handlers_passive cfg (data_callbacks s) (latest_data s) \<Longrightarrow>
   notify_from cfg i s =
     (s, concat (map (\<lambda>cb. Callback cb (latest_data s) (latest_data s) #
                       (if raises (callback_reaction cfg cb (latest_data s))
                        then [CallbackError cb] else []))
                  (drop i (data_callbacks s))))"
proof (induction cfg i s rule: notify_from.induct)
  case (1 cfg i s)
  show ?case
  proof (cases "i < length (data_callbacks s)")
    case True
    then have "data_callbacks s ! i \<in> set (data_callbacks s)" by simp
    then have quiet: "registry_ops (callback_reaction cfg (data_callbacks s ! i) (latest_data s)) = []"
        "map_after (callback_reaction cfg (data_callbacks s ! i) (latest_data s)) = latest_data s"
      using "1.prems" by (simp_all add: handlers_passive_def list_all_iff)
    have same: "after_call cfg (data_callbacks s ! i) s = s"
      using after_call_passive [OF quiet] .
    have ih: "notify_from cfg (Suc i) s =
       (s, concat (map (\<lambda>cb. Callback cb (latest_data s) (latest_data s) #
                       (if raises (callback_reaction cfg cb (latest_data s))
                        then [CallbackError cb] else []))
                  (drop (Suc i) (data_callbacks s))))"
      using "1.IH" [OF True refl refl refl] "1.prems" by (simp add: same)
    have "drop i (data_callbacks s) = data_callbacks s ! i # drop (Suc i) (data_callbacks s)"
      using True by (simp add: Cons_nth_drop_Suc)
    then show ?thesis
      by (simp add: notify_from_step [OF True] same ih)
  next
    case False
    then show ?thesis by (simp add: notify_from_done)
  qed
qed

lemma process_lines_frame:
  "reader (fst (process_lines cfg now ls s)) = reader s \<and>
   writer (fst (process_lines cfg now ls s)) = writer s \<and>
   connected (fst (process_lines cfg now ls s)) = connected s \<and>
   running (fst (process_lines cfg now ls s)) = running s \<and>
   reconnect_delay (fst (process_lines cfg now ls s)) = reconnect_delay s \<and>
   consecutive_timeouts (fst (process_lines cfg now ls s)) = consecutive_timeouts s"
proof (induction ls arbitrary: s)
  case Nil
  show ?case by simp
next
  case (Cons l ls)
  show ?case
    by (simp add: Let_def split_beta Cons.IH notify_from_frame split: parsed.splits option.splits)
qed

lemma process_data_frame:
  "reader (fst (process_data cfg e data s)) = reader s \<and>
   writer (fst (process_data cfg e data s)) = writer s \<and>
   connected (fst (process_data cfg e data s)) = connected s \<and>
   running (fst (process_data cfg e data s)) = running s \<and>
   reconnect_delay (fst (process_data cfg e data s)) = reconnect_delay s \<and>
   consecutive_timeouts (fst (process_data cfg e data s)) = consecutive_timeouts s"
  by (simp add: process_data_def Let_def process_lines_frame split: option.splits)

lemma process_lines_quiet: "a \<in> set (snd (process_lines cfg now ls s)) \<Longrightarrow> quiet a"
proof (induction ls arbitrary: s)
  case Nil
  then show ?case by simp
next
  case (Cons l ls)
  then show ?case
    by (auto simp: Let_def split_beta dest: notify_from_quiet
        split: parsed.splits option.splits if_splits)
qed

lemma process_data_quiet: "a \<in> set (snd (process_data cfg e data s)) \<Longrightarrow> quiet a"
  by (auto simp: process_data_def Let_def dest: process_lines_quiet split: option.splits)

lemma on_exception_result:
  "on_exception cfg err s =
     ((set_last_error (ErrorText err) s)
        \<lparr>connected := False, consecutive_timeouts := 0, writer := False,
          reader := (if writer s then False else reader s),
          reconnect_delay := min (reconnect_delay s * 2) (telnet_max_reconnect_delay cfg)\<rparr>,
      (if writer s then [CloseWriter] else []) @ [Sleep (reconnect_delay s)])"
  by (simp add: on_exception_def close_connection_def set_last_error_def Let_def)

lemma stale_iter:
  assumes "last_update s = Some u" "clock e - u > telnet_data_staleness_timeout cfg"
  shows "\<not> connected (fst (receiver_iter cfg e s)) \<and>
         \<not> writer (fst (receiver_iter cfg e s)) \<and>
         Read \<notin> set (snd (receiver_iter cfg e s)) \<and>
         last_update (fst (receiver_iter cfg e s)) = Some u \<and>
         running (fst (receiver_iter cfg e s)) = running s"
  using assms
  by (simp add: receiver_iter_def connect_def on_exception_result stale_for_def
      close_connection_def set_last_error_def Let_def split: connect_result.splits)

lemma connect_fail_iter:
  assumes "\<not> connected s" "connect_result e \<noteq> Opened"
  shows "\<not> connected (fst (receiver_iter cfg e s)) \<and>
         running (fst (receiver_iter cfg e s)) = running s \<and>
         reconnect_delay (fst (receiver_iter cfg e s)) =
           min (reconnect_delay s * 2) (telnet_max_reconnect_delay cfg)"
  using assms
  by (simp add: receiver_iter_def connect_def on_exception_result set_last_error_def
      split: connect_result.splits)

lemma iter_delay_cases:
  "reconnect_delay (fst (receiver_iter cfg e s)) = reconnect_delay s \<or>
   reconnect_delay (fst (receiver_iter cfg e s)) = telnet_reconnect_delay cfg \<or>
   reconnect_delay (fst (receiver_iter cfg e s)) =
     min (reconnect_delay s * 2) (telnet_max_reconnect_delay cfg)"
  by (simp add: receiver_iter_def read_step_def connect_def on_exception_result stale_for_def
      close_connection_def set_last_error_def Let_def split_beta process_data_frame
      split: connect_result.splits option.splits read_result.splits)

lemma iter_running: "running (fst (receiver_iter cfg e s)) = running s"
  by (simp add: receiver_iter_def read_step_def connect_def on_exception_result stale_for_def
      close_connection_def set_last_error_def Let_def split_beta process_data_frame
      split: connect_result.splits option.splits read_result.splits)

lemma loop_delay_in_range:
  assumes "0 \<le> telnet_reconnect_delay cfg"
    and "telnet_reconnect_delay cfg \<le> telnet_max_reconnect_delay cfg"
    and "telnet_reconnect_delay cfg \<le> reconnect_delay s"
    and "reconnect_delay s \<le> telnet_max_reconnect_delay cfg"
  shows "telnet_reconnect_delay cfg \<le> reconnect_delay (fst (receiver_loop cfg es s)) \<and>
         reconnect_delay (fst (receiver_loop cfg es s)) \<le> telnet_max_reconnect_delay cfg"
  using assms(3,4)
proof (induction es arbitrary: s)
  case Nil
  then show ?case by simp
next
  case (Cons e es)
  have "telnet_reconnect_delay cfg \<le> reconnect_delay (fst (receiver_iter cfg e s)) \<and>
        reconnect_delay (fst (receiver_iter cfg e s)) \<le> telnet_max_reconnect_delay cfg"
    using iter_delay_cases [of cfg e s] Cons.prems assms(1,2) by auto
  then show ?case
    using Cons.IH [of "fst (receiver_iter cfg e s)"] Cons.prems
    by (simp add: split_beta Let_def)
qed

lemma min_double_power:
  fixes d m :: rat
  assumes "0 \<le> d" "0 \<le> m"
  shows "min (min (d * 2) m * 2 ^ n) m = min (d * 2 ^ Suc n) m"
proof (cases "d * 2 \<le> m")
  case True
  then show ?thesis by (simp add: mult.assoc)
next
  case False
  have one: "(1::rat) \<le> 2 ^ n" by simp
  have "m \<le> m * 2 ^ n"
    using assms(2) one by (simp add: mult_le_cancel_left1)
  moreover have "d * 2 * 1 \<le> d * 2 * 2 ^ n"
    using assms(1) one by (intro mult_left_mono) simp_all
  then have "m < d * 2 ^ Suc n"
    using False by (simp add: mult.assoc)
  ultimately show ?thesis
    using False by (simp add: min_def)
qed

lemma loop_connect_failures:
  assumes "0 \<le> telnet_max_reconnect_delay cfg"
  shows "running s \<Longrightarrow> \<not> connected s \<Longrightarrow> 0 \<le> reconnect_delay s \<Longrightarrow>
         reconnect_delay s \<le> telnet_max_reconnect_delay cfg \<Longrightarrow>
         \<forall>e \<in> set es. connect_result e \<noteq> Opened \<Longrightarrow>
         reconnect_delay (fst (receiver_loop cfg es s)) =
           min (reconnect_delay s * 2 ^ length es) (telnet_max_reconnect_delay cfg)"
proof (induction es arbitrary: s)
  case Nil
  then show ?case by simp
next
  case (Cons e es)
  let ?s = "fst (receiver_iter cfg e s)"
  have step: "\<not> connected ?s" "running ?s"
    "reconnect_delay ?s = min (reconnect_delay s * 2) (telnet_max_reconnect_delay cfg)"
    using connect_fail_iter [of s e cfg] Cons.prems by simp_all
  have range: "0 \<le> reconnect_delay ?s" "reconnect_delay ?s \<le> telnet_max_reconnect_delay cfg"
    using step(3) Cons.prems(3) assms by simp_all
  have "reconnect_delay (fst (receiver_loop cfg es ?s)) =
          min (reconnect_delay ?s * 2 ^ length es) (telnet_max_reconnect_delay cfg)"
    using Cons.IH [OF step(2) step(1) range] Cons.prems(5) by simp
  then have "reconnect_delay (fst (receiver_loop cfg es ?s)) =
          min (reconnect_delay s * 2 ^ Suc (length es)) (telnet_max_reconnect_delay cfg)"
    using min_double_power [OF Cons.prems(3) assms, of "length es"] step(3) by simp
  then show ?case
    using Cons.prems(1) by (simp add: split_beta Let_def)
qed

lemma iter_opens_once:
  "\<not> connected s \<Longrightarrow>
     \<exists>rest. snd (receiver_iter cfg e s) = OpenConnection # rest \<and> OpenConnection \<notin> set rest"
  using process_data_quiet [of OpenConnection cfg e]
  by (auto simp: receiver_iter_def read_step_def connect_def on_exception_result stale_for_def
      close_connection_def set_last_error_def Let_def split_beta
      split: connect_result.splits option.splits read_result.splits)

lemma iter_connected_no_open:
  "connected s \<Longrightarrow> OpenConnection \<notin> set (snd (receiver_iter cfg e s))"
  using process_data_quiet [of OpenConnection cfg e]
  by (auto simp: receiver_iter_def read_step_def on_exception_result stale_for_def
      close_connection_def set_last_error_def Let_def split_beta
      split: option.splits read_result.splits)

lemma timeout_iter_below:
  assumes "connected s" "reader s" "stale_for cfg e s = None" "read_result e = ReadTimeout"
    "consecutive_timeouts s + 1 < telnet_max_consecutive_timeouts cfg"
  shows "receiver_iter cfg e s = (s\<lparr>consecutive_timeouts := consecutive_timeouts s + 1\<rparr>, [Read])"
  using assms by (simp add: receiver_iter_def read_step_def Let_def)

lemma timeout_iter_reached:
  assumes "connected s" "reader s" "writer s" "stale_for cfg e s = None"
    "read_result e = ReadTimeout"
    "telnet_max_consecutive_timeouts cfg \<le> consecutive_timeouts s + 1"
  shows "receiver_iter cfg e s =
     (s\<lparr>stats := (stats s)\<lparr>last_error := Some (DeadConnection (consecutive_timeouts s + 1))\<rparr>,
        connected := False, consecutive_timeouts := 0, writer := False, reader := False\<rparr>,
      [Read, CloseWriter])"
  using assms
  by (simp add: receiver_iter_def read_step_def Let_def close_connection_def set_last_error_def)

lemma process_lines_all_fail:
  "\<forall>l \<in> set (filter (\<lambda>l. l \<noteq> [] \<and> str_startswith l pm) (map str_strip ls)). parse_fails cfg l \<Longrightarrow>
   last_update (fst (process_lines cfg now ls s)) = last_update s \<and>
   latest_data (fst (process_lines cfg now ls s)) = latest_data s \<and>
   snd (process_lines cfg now ls s) =
     map Parse (filter (\<lambda>l. l \<noteq> [] \<and> str_startswith l pm) (map str_strip ls))"
proof (induction ls arbitrary: s)
  case Nil
  then show ?case by simp
next
  case (Cons l ls)
  then show ?case
    by (auto simp: Let_def split_beta parse_fails_def split: parsed.splits option.splits)
qed

lemma process_data_all_fail:
  assumes "\<forall>l \<in> set (chunk_frames data). parse_fails cfg l"
  shows "last_update (fst (process_data cfg e data s)) = last_update s \<and>
         latest_data (fst (process_data cfg e data s)) = latest_data s \<and>
         snd (process_data cfg e data s) = map Parse (chunk_frames data)"
proof (cases "fst (decode_data data)")
  case None
  then show ?thesis by (simp add: process_data_def chunk_frames_def)
next
  case (Some t)
  then show ?thesis
    using assms process_lines_all_fail [of "str_split newline (str_strip t)" cfg "store_clock e"]
    by (simp add: process_data_def chunk_frames_def candidate_frames_def Let_def)
qed

lemma unparseable_iter:
  assumes "connected s" "reader s" "last_update s = None"
    "read_result e = ReadBytes data" "data \<noteq> []"
    "\<forall>l \<in> set (chunk_frames data). parse_fails cfg l"
  shows "connected (fst (receiver_iter cfg e s)) \<and> reader (fst (receiver_iter cfg e s)) \<and>
         last_update (fst (receiver_iter cfg e s)) = None \<and>
         snd (receiver_iter cfg e s) = Read # map Parse (chunk_frames data)"
  using assms process_data_all_fail [OF assms(6), of e s] process_data_frame [of cfg e data s]
  by (simp add: receiver_iter_def read_step_def stale_for_def Let_def split_beta)

lemma unparseable_loop:
  "running s \<Longrightarrow> connected s \<Longrightarrow> reader s \<Longrightarrow> last_update s = None \<Longrightarrow>
   \<forall>e \<in> set es. \<exists>data. read_result e = ReadBytes data \<and> data \<noteq> [] \<and>
       (\<forall>l \<in> set (chunk_frames data). parse_fails cfg l) \<Longrightarrow>
   connected (fst (receiver_loop cfg es s)) \<and>
   last_update (fst (receiver_loop cfg es s)) = None \<and>
   CloseWriter \<notin> set (snd (receiver_loop cfg es s))"
proof (induction es arbitrary: s)
  case Nil
  then show ?case by simp
next
  case (Cons e es)
  from Cons.prems(5) obtain data where d: "read_result e = ReadBytes data" "data \<noteq> []"
    "\<forall>l \<in> set (chunk_frames data). parse_fails cfg l" by auto
  note it = unparseable_iter [OF Cons.prems(2,3,4) d]
  have run: "running (fst (receiver_iter cfg e s))"
    using Cons.prems(1) by (simp add: iter_running)
  have "connected (fst (receiver_loop cfg es (fst (receiver_iter cfg e s)))) \<and>
    last_update (fst (receiver_loop cfg es (fst (receiver_iter cfg e s)))) = None \<and>
    CloseWriter \<notin> set (snd (receiver_loop cfg es (fst (receiver_iter cfg e s))))"
    using Cons.IH [OF run] it Cons.prems(5) by simp
  then show ?case
    using Cons.prems(1) it by (auto simp: split_beta Let_def)
qed

lemma after_frame:
  "receiver_iter sample_params (frame_at 0) (async_start (init sample_params)) =
    ((async_start (init sample_params))
       \<lparr>reader := True, writer := True, connected := True,
        latest_data := [(''length'', 4)], last_update := Some 0,
        stats := \<lparr>messages_received = 1, messages_parsed = 1, parse_errors = 0,
                  reconnections = 1, last_error = None\<rparr>\<rparr>,
     [OpenConnection, Read, Parse [0x70, 0x6D, 0x20, 0x31]])"
  by (simp add: sample_params_def receiver_iter_def read_step_def connect_def stale_for_def
      process_data_def decode_data_def utf8_next.simps str_strip_def is_space_def newline_def
      str_startswith_def pm_def Let_def async_start_def init_def frame_at_def sample_parse_def
      notify_from_done)

lemma stale_loop:
  "running s \<Longrightarrow> last_update s = Some u \<Longrightarrow>
   \<forall>e \<in> set es. telnet_data_staleness_timeout cfg < clock e - u \<Longrightarrow>
   last_update (fst (receiver_loop cfg es s)) = Some u \<and>
   (es \<noteq> [] \<longrightarrow> \<not> connected (fst (receiver_loop cfg es s))) \<and>
   Read \<notin> set (snd (receiver_loop cfg es s))"
proof (induction es arbitrary: s)
  case Nil
  then show ?case by simp
next
  case (Cons e es)
  have late: "telnet_data_staleness_timeout cfg < clock e - u"
    using Cons.prems(3) by simp
  note it = stale_iter [OF Cons.prems(2) late]
  have run: "running (fst (receiver_iter cfg e s))"
    using Cons.prems(1) by (simp add: iter_running)
  have rest: "last_update (fst (receiver_loop cfg es (fst (receiver_iter cfg e s)))) = Some u \<and>
    (es \<noteq> [] \<longrightarrow> \<not> connected (fst (receiver_loop cfg es (fst (receiver_iter cfg e s))))) \<and>
    Read \<notin> set (snd (receiver_loop cfg es (fst (receiver_iter cfg e s))))"
    using Cons.IH [OF run] it Cons.prems(3) by simp
  show ?case
  proof (cases es)
    case Nil
    then show ?thesis using Cons.prems(1) it by (simp add: split_beta Let_def)
  next
    case (Cons e' es')
    then show ?thesis using Cons.prems(1) it rest by (simp add: split_beta Let_def)
  qed
qed

lemma stale_reconnect_iter:
  assumes "\<not> connected s" "last_update s = Some u"
    "telnet_data_staleness_timeout cfg < clock e - u" "connect_result e = Opened"
  shows "snd (receiver_iter cfg e s) = [OpenConnection, CloseWriter]"
  using assms
  by (simp add: receiver_iter_def connect_def stale_for_def close_connection_def
      set_last_error_def Let_def)

lemma three_frames_frames:
  "chunk_frames three_frames =
     [pm] @ [0x70, 0x6D, 0x20, 0x31] # [[0x70, 0x6D, 0x20, 0x32, 0x32]]"
  by (simp add: three_frames_def chunk_frames_def decode_data_def utf8_next.simps
      candidate_frames_def str_strip_def is_space_def newline_def str_startswith_def pm_def)

lemma wf_heap_entry:
  "wf_heap h \<Longrightarrow> a < length h \<Longrightarrow> (k, v) \<in> set (h ! a) \<Longrightarrow> val_ok h v"
  by (fastforce simp: wf_heap_def list_all_iff)

lemma look_stable:
  assumes "wf_heap h" and "length h \<le> length h'" and "\<forall>a < length h. h' ! a = h ! a"
  shows "val_ok h v \<Longrightarrow> look n h' v = look n h v"
proof (induction n arbitrary: v)
  case 0
  then show ?case by (cases v) simp_all
next
  case (Suc n)
  show ?case
  proof (cases v)
    case (PRef a)
    then have a: "a < length h" using Suc.prems by simp
    have "look n h' w = look n h w" if "(k, w) \<in> set (h ! a)" for k w
      using Suc.IH wf_heap_entry [OF assms(1) a that] .
    then have "map (\<lambda>(k, w). (k, look n h' w)) (h ! a) = map (\<lambda>(k, w). (k, look n h w)) (h ! a)"
      by auto
    then show ?thesis
      using PRef a assms(2,3) by simp
  qed simp_all
qed

lemma look_copy:
  assumes "wf_heap h" and "length h \<le> length h'" and "\<forall>a < length h. h' ! a = h ! a"
    and "a < length h" and "r < length h'" and "h' ! r = h ! a"
  shows "look n h' (PRef r) = look n h (PRef a)"
proof (cases n)
  case 0
  then show ?thesis by simp
next
  case (Suc k)
  have "look k h' w = look k h w" if "(key, w) \<in> set (h ! a)" for key w
    using look_stable [OF assms(1-3)] wf_heap_entry [OF assms(1,4) that] .
  then have "map (\<lambda>(key, w). (key, look k h' w)) (h ! a) = map (\<lambda>(key, w). (key, look k h w)) (h ! a)"
    by auto
  then show ?thesis
    using Suc assms(4-6) by simp
qed

lemma top_level_write_frame:
  assumes "dict_setitem (h @ [d]) (length h) k v = Some h2 \<or>
    dict_delitem (h @ [d]) (length h) k = Some h2"
  shows "length h2 = Suc (length h) \<and> (\<forall>a < length h. h2 ! a = h ! a)"
  using assms
  by (auto simp: dict_setitem_def dict_delitem_def nth_append)

lemma process_lines_first_success:
  "filter (\<lambda>l. l \<noteq> [] \<and> str_startswith l pm) (map str_strip ls) = pre @ c # post \<Longrightarrow>
   \<forall>l \<in> set pre. parse_fails cfg l \<Longrightarrow> parses_to cfg c m \<Longrightarrow>
   \<exists>s0. latest_data s0 = m \<and> last_update s0 = Some now \<and>
        data_callbacks s0 = data_callbacks s \<and>
        messages_parsed (stats s0) = messages_parsed (stats s) + 1 \<and>
        process_lines cfg now ls s =
          (fst (notify_from cfg 0 s0), map Parse pre @ Parse c # snd (notify_from cfg 0 s0))"
proof (induction ls arbitrary: pre s)
  case Nil
  then show ?case by simp
next
  case (Cons l ls)
  show ?case
  proof (cases "str_strip l \<noteq> [] \<and> str_startswith (str_strip l) pm")
    case False
    then have "filter (\<lambda>l. l \<noteq> [] \<and> str_startswith l pm) (map str_strip ls) = pre @ c # post"
      using Cons.prems(1) by auto
    from Cons.IH [OF this Cons.prems(2,3), of s] False show ?thesis
      by (auto simp: Let_def)
  next
    case True
    then have split: "str_strip l # filter (\<lambda>l. l \<noteq> [] \<and> str_startswith l pm) (map str_strip ls)
        = pre @ c # post"
      using Cons.prems(1) by simp
    show ?thesis
    proof (cases pre)
      case Nil
      then have c: "c = str_strip l" using split by simp
      let ?s0 = "s\<lparr>latest_data := m, last_update := Some now,
        stats := (stats s)\<lparr>messages_parsed := messages_parsed (stats s) + 1\<rparr>\<rparr>"
      have "process_lines cfg now (l # ls) s =
          (fst (notify_from cfg 0 ?s0), map Parse pre @ Parse c # snd (notify_from cfg 0 ?s0))"
        using True Nil c Cons.prems(3)
        by (simp add: parses_to_def Let_def split_beta)
      moreover have "latest_data ?s0 = m \<and> last_update ?s0 = Some now \<and>
          data_callbacks ?s0 = data_callbacks s \<and>
          messages_parsed (stats ?s0) = messages_parsed (stats s) + 1"
        by simp
      ultimately show ?thesis by blast
    next
      case (Cons p pre')
      then have p: "p = str_strip l"
        and rest: "filter (\<lambda>l. l \<noteq> [] \<and> str_startswith l pm) (map str_strip ls) = pre' @ c # post"
        using split by simp_all
      have fails: "parse_fails cfg (str_strip l)" and tail: "\<forall>l \<in> set pre'. parse_fails cfg l"
        using Cons.prems(2) Cons p by simp_all
      define s' where "s' = (case parse_message cfg (str_strip l) of
          Raises \<Rightarrow> s\<lparr>stats := (stats s)\<lparr>parse_errors := parse_errors (stats s) + 1\<rparr>\<rparr>
        | Returns r \<Rightarrow> s)"
      have step: "process_lines cfg now (l # ls) s =
          (fst (process_lines cfg now ls s'), Parse (str_strip l) # snd (process_lines cfg now ls s'))"
        using True fails
        by (simp add: s'_def Let_def split_beta parse_fails_def split: parsed.splits option.splits)
      have same: "data_callbacks s' = data_callbacks s"
          "messages_parsed (stats s') = messages_parsed (stats s)"
        by (simp_all add: s'_def split: parsed.splits)
      from Cons.IH [OF rest tail Cons.prems(3), of s'] obtain s0 where
        s0: "latest_data s0 = m" "last_update s0 = Some now" "data_callbacks s0 = data_callbacks s'"
          "messages_parsed (stats s0) = messages_parsed (stats s') + 1"
          "process_lines cfg now ls s' =
            (fst (notify_from cfg 0 s0), map Parse pre' @ Parse c # snd (notify_from cfg 0 s0))"
        by blast
      have "process_lines cfg now (l # ls) s =
          (fst (notify_from cfg 0 s0), map Parse pre @ Parse c # snd (notify_from cfg 0 s0))"
        using step s0(5) Cons p by simp
      then show ?thesis
        using s0(1-4) same by auto
    qed
  qed
qed

lemma process_data_first_success:
  assumes "chunk_frames data = pre @ c # post" "\<forall>l \<in> set pre. parse_fails cfg l"
    "parses_to cfg c m"
  shows "\<exists>s0. latest_data s0 = m \<and> last_update s0 = Some (store_clock e) \<and>
        data_callbacks s0 = data_callbacks s \<and>
        messages_parsed (stats s0) = messages_parsed (stats s) + 1 \<and>
        process_data cfg e data s =
          (fst (notify_from cfg 0 s0), map Parse pre @ Parse c # snd (notify_from cfg 0 s0))"
proof (cases "fst (decode_data data)")
  case None
  then show ?thesis using assms(1) by (simp add: chunk_frames_def)
next
  case (Some t)
  then have "filter (\<lambda>l. l \<noteq> [] \<and> str_startswith l pm)
      (map str_strip (str_split newline (str_strip t))) = pre @ c # post"
    using assms(1) by (simp add: chunk_frames_def candidate_frames_def)
  from process_lines_first_success [OF this assms(2,3), of "store_clock e"
      "s\<lparr>stats := (stats s)\<lparr>messages_received := messages_received (stats s) + 1\<rparr>\<rparr>"]
  show ?thesis
    using Some by (simp add: process_data_def Let_def)
qed

lemma callbacks_of_notifications:
  "filter is_callback
     (concat (map (\<lambda>cb. Callback cb m d # (if bad cb then [CallbackError cb] else [])) cbs))
   = map (\<lambda>cb. Callback cb m d) cbs"
  by (induction cbs) auto

lemma garbage_frames: "chunk_frames [0x78, 0x78, 0x0A] = []"
  by (simp add: chunk_frames_def decode_data_def utf8_next.simps candidate_frames_def
      str_strip_def is_space_def newline_def str_startswith_def pm_def)

lemma receiver_loop_append:
  "receiver_loop cfg (es @ es') s =
     (fst (receiver_loop cfg es' (fst (receiver_loop cfg es s))),
      snd (receiver_loop cfg es s) @ snd (receiver_loop cfg es' (fst (receiver_loop cfg es s))))"
proof (induction es arbitrary: s)
  case Nil
  show ?case by simp
next
  case (Cons e es)
  show ?case
  proof (cases "running s")
    case True
    then show ?thesis
      by (simp add: Cons.IH split_beta Let_def)
  next
    case False
    then show ?thesis by (cases es') simp_all
  qed
qed

lemma unparseable_iter_fresh:
  assumes "connected s" "reader s" "stale_for cfg e s = None"
    "read_result e = ReadBytes data" "data \<noteq> []"
    "\<forall>l \<in> set (chunk_frames data). parse_fails cfg l"
  shows "connected (fst (receiver_iter cfg e s)) \<and> reader (fst (receiver_iter cfg e s)) \<and>
         writer (fst (receiver_iter cfg e s)) = writer s \<and>
         last_update (fst (receiver_iter cfg e s)) = last_update s \<and>
         snd (receiver_iter cfg e s) = Read # map Parse (chunk_frames data)"
  using assms process_data_all_fail [OF assms(6), of e s] process_data_frame [of cfg e data s]
  by (simp add: receiver_iter_def read_step_def Let_def split_beta)

lemma unparseable_loop_fresh:
  "running s \<Longrightarrow> connected s \<Longrightarrow> reader s \<Longrightarrow> last_update s = Some u \<Longrightarrow>
   \<forall>e \<in> set es. clock e - u \<le> telnet_data_staleness_timeout cfg \<and>
       (\<exists>data. read_result e = ReadBytes data \<and> data \<noteq> [] \<and>
          (\<forall>l \<in> set (chunk_frames data). parse_fails cfg l)) \<Longrightarrow>
   running (fst (receiver_loop cfg es s)) \<and>
   connected (fst (receiver_loop cfg es s)) \<and>
   reader (fst (receiver_loop cfg es s)) \<and>
   writer (fst (receiver_loop cfg es s)) = writer s \<and>
   last_update (fst (receiver_loop cfg es s)) = Some u \<and>
   CloseWriter \<notin> set (snd (receiver_loop cfg es s))"
proof (induction es arbitrary: s)
  case Nil
  then show ?case by simp
next
  case (Cons e es)
  from Cons.prems(5) obtain data where d: "read_result e = ReadBytes data" "data \<noteq> []"
    "\<forall>l \<in> set (chunk_frames data). parse_fails cfg l"
    and early: "clock e - u \<le> telnet_data_staleness_timeout cfg" by auto
  have fresh: "stale_for cfg e s = None"
    using early Cons.prems(4) by (simp add: stale_for_def Let_def)
  note it = unparseable_iter_fresh [OF Cons.prems(2,3) fresh d]
  have run: "running (fst (receiver_iter cfg e s))"
    using Cons.prems(1) by (simp add: iter_running)
  have upd: "last_update (fst (receiver_iter cfg e s)) = Some u"
    using it Cons.prems(4) by simp
  have "running (fst (receiver_loop cfg es (fst (receiver_iter cfg e s)))) \<and>
    connected (fst (receiver_loop cfg es (fst (receiver_iter cfg e s)))) \<and>
    reader (fst (receiver_loop cfg es (fst (receiver_iter cfg e s)))) \<and>
    writer (fst (receiver_loop cfg es (fst (receiver_iter cfg e s)))) =
      writer (fst (receiver_iter cfg e s)) \<and>
    last_update (fst (receiver_loop cfg es (fst (receiver_iter cfg e s)))) = Some u \<and>
    CloseWriter \<notin> set (snd (receiver_loop cfg es (fst (receiver_iter cfg e s))))"
    using Cons.IH [OF run _ _ upd] it Cons.prems(5) by simp
  then show ?case
    using Cons.prems(1) it by (auto simp: split_beta Let_def)
qed

lemma stale_iter_connected:
  assumes "connected s" "writer s" "last_update s = Some u"
    "telnet_data_staleness_timeout cfg < clock e - u"
  shows "snd (receiver_iter cfg e s) = [CloseWriter] \<and>
         \<not> connected (fst (receiver_iter cfg e s)) \<and>
         \<not> writer (fst (receiver_iter cfg e s)) \<and>
         \<not> reader (fst (receiver_iter cfg e s)) \<and>
         last_update (fst (receiver_iter cfg e s)) = Some u"
  using assms
  by (simp add: receiver_iter_def stale_for_def close_connection_def set_last_error_def Let_def)

lemma stale_after_unparseable:
  assumes "running s" "connected s" "reader s" "writer s" "last_update s = Some u"
    and "\<forall>e' \<in> set es. clock e' - u \<le> telnet_data_staleness_timeout cfg \<and>
       (\<exists>data. read_result e' = ReadBytes data \<and> data \<noteq> [] \<and>
          (\<forall>l \<in> set (chunk_frames data). parse_fails cfg l))"
    and "telnet_data_staleness_timeout cfg < clock e - u"
  shows "connected (fst (receiver_loop cfg es s)) \<and>
         last_update (fst (receiver_loop cfg es s)) = Some u \<and>
         CloseWriter \<notin> set (snd (receiver_loop cfg es s)) \<and>
         snd (receiver_loop cfg (es @ [e]) s) = snd (receiver_loop cfg es s) @ [CloseWriter] \<and>
         \<not> connected (fst (receiver_loop cfg (es @ [e]) s)) \<and>
         \<not> writer (fst (receiver_loop cfg (es @ [e]) s)) \<and>
         last_update (fst (receiver_loop cfg (es @ [e]) s)) = Some u"
proof -
  let ?s = "fst (receiver_loop cfg es s)"
  note before = unparseable_loop_fresh [OF assms(1,2,3,5,6)]
  have w: "writer ?s" using before assms(4) by simp
  note last = stale_iter_connected [of ?s u cfg e]
  have "receiver_loop cfg [e] ?s = receiver_iter cfg e ?s"
    using before by (simp add: split_beta Let_def)
  then show ?thesis
    using before w last assms(7) by (simp add: receiver_loop_append)
qed

lemma successful_read_iter:
  assumes "connected s \<and> reader s \<or> \<not> connected s \<and> connect_result e = Opened"
    and "stale_for cfg e s = None" and "read_result e = ReadBytes data" and "data \<noteq> []"
  shows "reconnect_delay (fst (receiver_iter cfg e s)) = telnet_reconnect_delay cfg \<and>
         consecutive_timeouts (fst (receiver_iter cfg e s)) = 0 \<and>
         connected (fst (receiver_iter cfg e s)) \<and>
         Read \<in> set (snd (receiver_iter cfg e s))"
  using assms
  by (auto simp: receiver_iter_def read_step_def connect_def stale_for_def Let_def split_beta
      process_data_frame split: option.splits if_splits)

lemma read_error_iter:
  assumes "connected s" "reader s" "stale_for cfg e s = None" "read_result e = ReadRaises x"
  shows "reconnect_delay (fst (receiver_iter cfg e s)) =
           min (reconnect_delay s * 2) (telnet_max_reconnect_delay cfg) \<and>
         \<not> connected (fst (receiver_iter cfg e s)) \<and>
         Sleep (reconnect_delay s) \<in> set (snd (receiver_iter cfg e s))"
  using assms
  by (simp add: receiver_iter_def read_step_def on_exception_result Let_def set_last_error_def)

section \<open>The frame decoder never fails\<close>

lemma utf8_replace_total: "\<exists>t. utf8_decode Replace data = Some t"
  by (induction "Replace" data rule: utf8_decode.induct) (auto split: utf8_step.splits)

text \<open>
  Claim C5. For every byte sequence the decoding block leaves a text and raises nothing:
  strict UTF-8, strict Latin-1 and strict cp1252 are tried in this order and the first
  that succeeds gives the text; when all three fail the text is the UTF-8 decoding with
  replacement characters, which exists for every input.
\<close>

theorem decode_data_never_raises:
  "(\<exists>t. fst (decode_data data) = Some t) \<and>
   (\<exists>t. bytes_decode Utf8 Replace data = Some t) \<and>
   fst (decode_data data) =
     (case bytes_decode Utf8 Strict data of
        Some t \<Rightarrow> Some t
      | None \<Rightarrow>
          (case bytes_decode Latin1 Strict data of
             Some t \<Rightarrow> Some t
           | None \<Rightarrow>
               (case bytes_decode Cp1252 Strict data of
                  Some t \<Rightarrow> Some t
                | None \<Rightarrow> bytes_decode Utf8 Replace data)))"
  using utf8_replace_total [of data]
  by (auto simp: decode_data_def latin1_decode_def split: option.splits prod.splits)

theorem decode_data_never_raises_witness:
  "fst (decode_data [0x70, 0x6D, 0xFF]) = Some [0x70, 0x6D, 0xFF]"
  using decode_data_never_raises [of "[0x70, 0x6D, 0xFF]"]
  by (simp add: utf8_next.simps latin1_decode_def)

text \<open>
  Claim C10. Strict Latin-1 decoding succeeds on every byte sequence. Hence the loop over
  the encodings attempts UTF-8 alone, or UTF-8 and then Latin-1; cp1252 is never
  attempted, the \<open>text is None\<close> branch never runs, and the text is the strict UTF-8
  decoding when that exists and the strict Latin-1 decoding otherwise.
\<close>

theorem latin1_shadows_later_fallbacks:
  "bytes_decode Latin1 Strict data = Some (map unat data) \<and>
   fst (snd (decode_data data)) =
     (if bytes_decode Utf8 Strict data = None then [Utf8, Latin1] else [Utf8]) \<and>
   Cp1252 \<notin> set (fst (snd (decode_data data))) \<and>
   \<not> snd (snd (decode_data data)) \<and>
   fst (decode_data data) =
     (case bytes_decode Utf8 Strict data of
        Some t \<Rightarrow> Some t
      | None \<Rightarrow> bytes_decode Latin1 Strict data)"
  by (auto simp: decode_data_def latin1_decode_def split: option.splits prod.splits)

theorem latin1_shadows_later_fallbacks_witness:
  "decode_data [0x80, 0x81] = (Some [0x80, 0x81], [Utf8, Latin1], False) \<and>
   bytes_decode Cp1252 Strict [0x80, 0x81] = None"
  using latin1_shadows_later_fallbacks [of "[0x80, 0x81]"]
  by (simp add: utf8_next.simps latin1_decode_def decode_data_def cp1252_char_def
      cp1252_high_def)

section \<open>Reconnect backoff\<close>

text \<open>
  Claim C6. With a base delay that is not negative and not above the maximum: the delay of
  a new client is the base; the delay stays between base and maximum through any number
  of iterations of the receive loop; after N consecutive iterations in which the
  connection attempt fails the delay is \<open>min (d * 2 ^ N) max\<close>, where \<open>d\<close> is the delay
  before them, so \<open>min (base * 2 ^ N) max\<close> when they start from the base; an iteration
  in which the client is connected (or connects), the data is not stale and the read
  returns a non-empty chunk performs the read and leaves the delay at the base, whatever
  it was; and an iteration whose read raises doubles the delay, capped at the maximum, as
  a failed connection attempt does.
\<close>

theorem reconnect_delay_backoff:
  assumes "0 \<le> telnet_reconnect_delay cfg"
    and "telnet_reconnect_delay cfg \<le> telnet_max_reconnect_delay cfg"
  shows "reconnect_delay (init cfg) = telnet_reconnect_delay cfg \<and>
    (\<forall>s es. telnet_reconnect_delay cfg \<le> reconnect_delay s \<and>
            reconnect_delay s \<le> telnet_max_reconnect_delay cfg \<longrightarrow>
        telnet_reconnect_delay cfg \<le> reconnect_delay (fst (receiver_loop cfg es s)) \<and>
        reconnect_delay (fst (receiver_loop cfg es s)) \<le> telnet_max_reconnect_delay cfg) \<and>
    (\<forall>s es. running s \<and> \<not> connected s \<and> reconnect_delay s = telnet_reconnect_delay cfg \<and>
            (\<forall>e \<in> set es. connect_result e \<noteq> Opened) \<longrightarrow>
        reconnect_delay (fst (receiver_loop cfg es s)) =
          min (telnet_reconnect_delay cfg * 2 ^ length es) (telnet_max_reconnect_delay cfg)) \<and>
    (\<forall>s es. running s \<and> \<not> connected s \<and> 0 \<le> reconnect_delay s \<and>
            reconnect_delay s \<le> telnet_max_reconnect_delay cfg \<and>
            (\<forall>e \<in> set es. connect_result e \<noteq> Opened) \<longrightarrow>
        reconnect_delay (fst (receiver_loop cfg es s)) =
          min (reconnect_delay s * 2 ^ length es) (telnet_max_reconnect_delay cfg)) \<and>
    (\<forall>s e data. (connected s \<and> reader s \<or> \<not> connected s \<and> connect_result e = Opened) \<and>
            stale_for cfg e s = None \<and> read_result e = ReadBytes data \<and> data \<noteq> [] \<longrightarrow>
        reconnect_delay (fst (receiver_iter cfg e s)) = telnet_reconnect_delay cfg \<and>
        Read \<in> set (snd (receiver_iter cfg e s))) \<and>
    (\<forall>s e x. connected s \<and> reader s \<and> stale_for cfg e s = None \<and>
            read_result e = ReadRaises x \<longrightarrow>
        reconnect_delay (fst (receiver_iter cfg e s)) =
          min (reconnect_delay s * 2) (telnet_max_reconnect_delay cfg))"
proof -
  have max_nonneg: "0 \<le> telnet_max_reconnect_delay cfg"
    using assms by simp
  have "reconnect_delay (init cfg) = telnet_reconnect_delay cfg"
    by (simp add: init_def)
  moreover have "telnet_reconnect_delay cfg \<le> reconnect_delay (fst (receiver_loop cfg es s)) \<and>
      reconnect_delay (fst (receiver_loop cfg es s)) \<le> telnet_max_reconnect_delay cfg"
    if "telnet_reconnect_delay cfg \<le> reconnect_delay s"
      and "reconnect_delay s \<le> telnet_max_reconnect_delay cfg" for s es
    using loop_delay_in_range [OF assms that] .
  moreover have "reconnect_delay (fst (receiver_loop cfg es s)) =
      min (telnet_reconnect_delay cfg * 2 ^ length es) (telnet_max_reconnect_delay cfg)"
    if "running s" "\<not> connected s" "reconnect_delay s = telnet_reconnect_delay cfg"
      "\<forall>e \<in> set es. connect_result e \<noteq> Opened" for s es
    using loop_connect_failures [OF max_nonneg that(1,2) _ _ that(4)] that(3) assms by simp
  moreover have "reconnect_delay (fst (receiver_loop cfg es s)) =
      min (reconnect_delay s * 2 ^ length es) (telnet_max_reconnect_delay cfg)"
    if "running s" "\<not> connected s" "0 \<le> reconnect_delay s"
      "reconnect_delay s \<le> telnet_max_reconnect_delay cfg"
      "\<forall>e \<in> set es. connect_result e \<noteq> Opened" for s es
    using loop_connect_failures [OF max_nonneg that] .
  moreover have "reconnect_delay (fst (receiver_iter cfg e s)) = telnet_reconnect_delay cfg \<and>
      Read \<in> set (snd (receiver_iter cfg e s))"
    if "connected s \<and> reader s \<or> \<not> connected s \<and> connect_result e = Opened"
      "stale_for cfg e s = None" "read_result e = ReadBytes data" "data \<noteq> []"
    for s e data
    using successful_read_iter [OF that] by simp
  moreover have "reconnect_delay (fst (receiver_iter cfg e s)) =
      min (reconnect_delay s * 2) (telnet_max_reconnect_delay cfg)"
    if "connected s" "reader s" "stale_for cfg e s = None" "read_result e = ReadRaises x"
    for s e x
    using read_error_iter [OF that] by simp
  ultimately show ?thesis by blast
qed

theorem reconnect_delay_backoff_witness:
  "0 \<le> telnet_reconnect_delay sample_params \<and>
   telnet_reconnect_delay sample_params \<le> telnet_max_reconnect_delay sample_params \<and>
   reconnect_delay (fst (receiver_loop sample_params [refused, refused, refused]
       (async_start (init sample_params)))) = 40 \<and>
   reconnect_delay (fst (receiver_loop sample_params [refused, refused]
       (async_start (init sample_params)))) = 20 \<and>
   reconnect_delay (fst (receiver_iter sample_params (frame_at 0)
       (fst (receiver_loop sample_params [refused, refused]
          (async_start (init sample_params)))))) = 5"
proof -
  let ?start = "async_start (init sample_params)"
  let ?s = "fst (receiver_loop sample_params [refused, refused] ?start)"
  have base: "0 \<le> telnet_reconnect_delay sample_params"
    and cap: "telnet_reconnect_delay sample_params \<le> telnet_max_reconnect_delay sample_params"
    by (simp_all add: sample_params_def)
  note t = reconnect_delay_backoff [OF base cap]
  have failures: "running s \<and> \<not> connected s \<and>
      reconnect_delay s = telnet_reconnect_delay sample_params \<and>
      (\<forall>e \<in> set es. connect_result e \<noteq> Opened) \<longrightarrow>
      reconnect_delay (fst (receiver_loop sample_params es s)) =
        min (telnet_reconnect_delay sample_params * 2 ^ length es)
          (telnet_max_reconnect_delay sample_params)" for s es
    using t by blast
  have reset: "(connected s \<and> reader s \<or> \<not> connected s \<and> connect_result e = Opened) \<and>
      stale_for sample_params e s = None \<and> read_result e = ReadBytes data \<and> data \<noteq> [] \<longrightarrow>
      reconnect_delay (fst (receiver_iter sample_params e s)) =
        telnet_reconnect_delay sample_params" for s e data
    using t by blast
  have three: "reconnect_delay (fst (receiver_loop sample_params [refused, refused, refused]
      ?start)) = 40"
    using failures [of ?start "[refused, refused, refused]"]
    by (simp add: async_start_def init_def refused_def sample_params_def)
  have two: "reconnect_delay ?s = 20"
    using failures [of ?start "[refused, refused]"]
    by (simp add: async_start_def init_def refused_def sample_params_def)
  have down: "\<not> connected ?s" and never: "last_update ?s = None"
    by (simp_all add: receiver_iter_def connect_def on_exception_result set_last_error_def
        async_start_def init_def refused_def)
  have fresh: "stale_for sample_params (frame_at 0) ?s = None"
    unfolding stale_for_def never by simp
  have "reconnect_delay (fst (receiver_iter sample_params (frame_at 0) ?s)) =
      telnet_reconnect_delay sample_params"
    using reset [of ?s "frame_at 0" "[0x70, 0x6D, 0x20, 0x31, 0x0A]"] down fresh
    by (simp add: frame_at_def)
  then have five: "reconnect_delay (fst (receiver_iter sample_params (frame_at 0) ?s)) = 5"
    by (simp add: sample_params_def)
  show ?thesis
    using base cap three two five by blast
qed

section \<open>Consecutive read timeouts\<close>

text \<open>
  Claim C7. In an iteration of a connected client whose data is not stale and whose read
  times out, the counter of consecutive timeouts is incremented. Below the threshold that
  is all that happens. When the incremented counter reaches the threshold, the error is
  recorded, the connection is closed, the client is marked disconnected and the counter is
  zero again; the iteration reads and closes and does not sleep, the backoff delay is
  unchanged, and the iteration that follows makes exactly one connection attempt. An
  iteration that starts connected makes none.
\<close>

theorem consecutive_timeouts_threshold:
  assumes "connected s" "reader s" "writer s" "stale_for cfg e s = None"
    and "read_result e = ReadTimeout"
  shows
    "(consecutive_timeouts s + 1 < telnet_max_consecutive_timeouts cfg \<longrightarrow>
        receiver_iter cfg e s = (s\<lparr>consecutive_timeouts := consecutive_timeouts s + 1\<rparr>, [Read])) \<and>
     (telnet_max_consecutive_timeouts cfg \<le> consecutive_timeouts s + 1 \<longrightarrow>
        snd (receiver_iter cfg e s) = [Read, CloseWriter] \<and>
        consecutive_timeouts (fst (receiver_iter cfg e s)) = 0 \<and>
        \<not> connected (fst (receiver_iter cfg e s)) \<and>
        \<not> reader (fst (receiver_iter cfg e s)) \<and>
        \<not> writer (fst (receiver_iter cfg e s)) \<and>
        last_error (stats (fst (receiver_iter cfg e s))) =
          Some (DeadConnection (consecutive_timeouts s + 1)) \<and>
        reconnect_delay (fst (receiver_iter cfg e s)) = reconnect_delay s \<and>
        (\<forall>e'. \<exists>rest. snd (receiver_iter cfg e' (fst (receiver_iter cfg e s))) = OpenConnection # rest \<and>
                       OpenConnection \<notin> set rest)) \<and>
     (\<forall>s' e'. connected s' \<longrightarrow> OpenConnection \<notin> set (snd (receiver_iter cfg e' s')))"
proof (intro conjI impI allI)
  fix s' :: "('a::finite, 'b) client" and e'
  assume "connected s'"
  then show "OpenConnection \<notin> set (snd (receiver_iter cfg e' s'))"
    by (rule iter_connected_no_open)
next
  assume "consecutive_timeouts s + 1 < telnet_max_consecutive_timeouts cfg"
  then show "receiver_iter cfg e s = (s\<lparr>consecutive_timeouts := consecutive_timeouts s + 1\<rparr>, [Read])"
    using timeout_iter_below assms by blast
next
  assume reached: "telnet_max_consecutive_timeouts cfg \<le> consecutive_timeouts s + 1"
  note r = timeout_iter_reached [OF assms reached]
  show "snd (receiver_iter cfg e s) = [Read, CloseWriter]" by (simp add: r)
  show "consecutive_timeouts (fst (receiver_iter cfg e s)) = 0" by (simp add: r)
  show "\<not> connected (fst (receiver_iter cfg e s))" by (simp add: r)
  show "\<not> reader (fst (receiver_iter cfg e s))" by (simp add: r)
  show "\<not> writer (fst (receiver_iter cfg e s))" by (simp add: r)
  show "last_error (stats (fst (receiver_iter cfg e s))) =
          Some (DeadConnection (consecutive_timeouts s + 1))" by (simp add: r)
  show "reconnect_delay (fst (receiver_iter cfg e s)) = reconnect_delay s" by (simp add: r)
  have "\<not> connected (fst (receiver_iter cfg e s))" by (simp add: r)
  then show "\<exists>rest. snd (receiver_iter cfg e' (fst (receiver_iter cfg e s))) = OpenConnection # rest \<and>
                       OpenConnection \<notin> set rest" for e'
    by (rule iter_opens_once)
qed

theorem consecutive_timeouts_threshold_witness:
  "connected (fst (receiver_loop sample_params [silent, silent] (async_start (init sample_params)))) \<and>
   consecutive_timeouts
     (fst (receiver_loop sample_params [silent, silent] (async_start (init sample_params)))) = 2 \<and>
   telnet_max_consecutive_timeouts sample_params = 3 \<and>
   snd (receiver_iter sample_params silent
     (fst (receiver_loop sample_params [silent, silent] (async_start (init sample_params)))))
     = [Read, CloseWriter]"
proof -
  let ?s = "fst (receiver_loop sample_params [silent, silent] (async_start (init sample_params)))"
  have s: "?s = (async_start (init sample_params))
      \<lparr>reader := True, writer := True, connected := True, consecutive_timeouts := 2,
       stats := (stats (init sample_params))\<lparr>reconnections := 1\<rparr>\<rparr>"
    by (simp add: receiver_iter_def read_step_def connect_def stale_for_def Let_def
        async_start_def init_def silent_def sample_params_def)
  have pre: "connected ?s" "reader ?s" "writer ?s" "stale_for sample_params silent ?s = None"
    "read_result silent = ReadTimeout"
    unfolding s by (simp_all add: stale_for_def async_start_def init_def silent_def)
  have thr: "telnet_max_consecutive_timeouts sample_params = 3"
    by (simp add: sample_params_def)
  show ?thesis
    using consecutive_timeouts_threshold [OF pre] thr
    unfolding s by simp
qed

section \<open>Staleness\<close>

text \<open>
  Claim C2, as stated, fails when nothing has ever been parsed: with a staleness timeout
  of 60 seconds, a client that connects and receives the chunk \<open>xx\<close> at clock readings
  0, 100 and 200 is still connected and has closed nothing.
\<close>

theorem never_parsed_never_stale_counterexample:
  "telnet_data_staleness_timeout sample_params = 60 \<and>
   connected (fst (receiver_loop sample_params [garbage_at 0, garbage_at 100, garbage_at 200]
      (async_start (init sample_params)))) \<and>
   snd (receiver_loop sample_params [garbage_at 0, garbage_at 100, garbage_at 200]
      (async_start (init sample_params))) = [OpenConnection, Read, Read, Read]"
  by (simp add: sample_params_def receiver_iter_def read_step_def connect_def stale_for_def
      process_data_def decode_data_def utf8_next.simps str_strip_def is_space_def newline_def
      str_startswith_def pm_def Let_def async_start_def init_def garbage_at_def)

text \<open>
  Claim C2, amended. When a last-update time exists: through any number of iterations
  whose reads return non-empty chunks in which no candidate frame parses, and whose clock
  readings are within the staleness timeout of the last update, the client stays
  connected and the last-update time keeps its value; the next iteration whose clock
  reading is more than the timeout after the last update reads nothing, closes the writer
  and ends disconnected. More generally every iteration that starts with a last-update
  time and such a clock reading ends disconnected, with the writer closed and without a
  read. A connected client that has never parsed anything is never found stale: through
  any number of iterations with such reads it stays connected and closes nothing,
  whatever the clock says.
\<close>

theorem staleness_requires_last_update:
  "(\<forall>u. last_update s = Some u \<and> telnet_data_staleness_timeout cfg < clock e - u \<longrightarrow>
       \<not> connected (fst (receiver_iter cfg e s)) \<and>
       \<not> writer (fst (receiver_iter cfg e s)) \<and>
       Read \<notin> set (snd (receiver_iter cfg e s))) \<and>
   (\<forall>u. running s \<and> connected s \<and> reader s \<and> writer s \<and> last_update s = Some u \<and>
       (\<forall>e' \<in> set es. clock e' - u \<le> telnet_data_staleness_timeout cfg \<and>
          (\<exists>data. read_result e' = ReadBytes data \<and> data \<noteq> [] \<and>
             (\<forall>l \<in> set (chunk_frames data). parse_fails cfg l))) \<and>
       telnet_data_staleness_timeout cfg < clock e - u \<longrightarrow>
       connected (fst (receiver_loop cfg es s)) \<and>
       last_update (fst (receiver_loop cfg es s)) = Some u \<and>
       CloseWriter \<notin> set (snd (receiver_loop cfg es s)) \<and>
       snd (receiver_loop cfg (es @ [e]) s) = snd (receiver_loop cfg es s) @ [CloseWriter] \<and>
       \<not> connected (fst (receiver_loop cfg (es @ [e]) s)) \<and>
       \<not> writer (fst (receiver_loop cfg (es @ [e]) s)) \<and>
       last_update (fst (receiver_loop cfg (es @ [e]) s)) = Some u) \<and>
   (running s \<and> connected s \<and> reader s \<and> last_update s = None \<and>
    (\<forall>e' \<in> set es. \<exists>data. read_result e' = ReadBytes data \<and> data \<noteq> [] \<and>
        (\<forall>l \<in> set (chunk_frames data). parse_fails cfg l)) \<longrightarrow>
       connected (fst (receiver_loop cfg es s)) \<and>
       last_update (fst (receiver_loop cfg es s)) = None \<and>
       CloseWriter \<notin> set (snd (receiver_loop cfg es s)))"
  using stale_iter [of s _ cfg e] stale_after_unparseable [of s _ es cfg e]
    unparseable_loop [of s es cfg]
  by blast

theorem staleness_requires_last_update_witness:
  "last_update (fst (receiver_iter sample_params (frame_at 0) (async_start (init sample_params))))
     = Some 0 \<and>
   telnet_data_staleness_timeout sample_params = 60 \<and>
   connected (fst (receiver_loop sample_params [garbage_at 20, garbage_at 40]
       (fst (receiver_iter sample_params (frame_at 0) (async_start (init sample_params)))))) \<and>
   \<not> connected (fst (receiver_loop sample_params ([garbage_at 20, garbage_at 40] @ [garbage_at 100])
       (fst (receiver_iter sample_params (frame_at 0) (async_start (init sample_params)))))) \<and>
   last_update (fst (receiver_loop sample_params ([garbage_at 20, garbage_at 40] @ [garbage_at 100])
       (fst (receiver_iter sample_params (frame_at 0) (async_start (init sample_params))))))
     = Some 0 \<and>
   connected (fst (receiver_loop sample_params [garbage_at 100, garbage_at 200]
       (fst (receiver_iter sample_params (garbage_at 0) (async_start (init sample_params))))))"
proof -
  let ?s = "fst (receiver_iter sample_params (frame_at 0) (async_start (init sample_params)))"
  let ?g = "fst (receiver_iter sample_params (garbage_at 0) (async_start (init sample_params)))"
  have s: "running ?s \<and> connected ?s \<and> reader ?s \<and> writer ?s \<and> last_update ?s = Some 0"
    unfolding after_frame by (simp add: async_start_def init_def)
  have timeout: "telnet_data_staleness_timeout sample_params = 60"
    by (simp add: sample_params_def)
  have early: "\<forall>e' \<in> set [garbage_at 20, garbage_at 40].
      clock e' - 0 \<le> telnet_data_staleness_timeout sample_params \<and>
      (\<exists>data. read_result e' = ReadBytes data \<and> data \<noteq> [] \<and>
         (\<forall>l \<in> set (chunk_frames data). parse_fails sample_params l))"
    by (simp add: garbage_at_def garbage_frames timeout)
  have late: "telnet_data_staleness_timeout sample_params < clock (garbage_at 100) - 0"
    by (simp add: garbage_at_def timeout)
  have g: "running ?g \<and> connected ?g \<and> reader ?g \<and> last_update ?g = None"
    by (simp add: sample_params_def receiver_iter_def read_step_def connect_def stale_for_def
        process_data_def decode_data_def utf8_next.simps str_strip_def is_space_def newline_def
        str_startswith_def pm_def Let_def async_start_def init_def garbage_at_def)
  have unparseable: "\<forall>e' \<in> set [garbage_at 100, garbage_at 200].
      \<exists>data. read_result e' = ReadBytes data \<and> data \<noteq> [] \<and>
         (\<forall>l \<in> set (chunk_frames data). parse_fails sample_params l)"
    by (simp add: garbage_at_def garbage_frames)
  have first: "connected (fst (receiver_loop sample_params [garbage_at 20, garbage_at 40] ?s)) \<and>
      \<not> connected (fst (receiver_loop sample_params
          ([garbage_at 20, garbage_at 40] @ [garbage_at 100]) ?s)) \<and>
      last_update (fst (receiver_loop sample_params
          ([garbage_at 20, garbage_at 40] @ [garbage_at 100]) ?s)) = Some 0"
    using staleness_requires_last_update
      [of ?s sample_params "garbage_at 100" "[garbage_at 20, garbage_at 40]"] s early late
    by blast
  have second: "connected (fst (receiver_loop sample_params [garbage_at 100, garbage_at 200] ?g))"
    using staleness_requires_last_update
      [of ?g sample_params "garbage_at 0" "[garbage_at 100, garbage_at 200]"] g unparseable
    by blast
  show ?thesis
    using s timeout first second by blast
qed

text \<open>
  Claim C9. Once an iteration finds the data stale (its clock reading is more than the
  timeout after the last update), and no later clock reading is earlier than that one,
  the loop never reads again: after that iteration and any number of later ones the last
  update is still the old one, the client is disconnected and no read has happened; every
  later iteration that starts disconnected and whose connection attempt succeeds opens
  the connection and closes it at once.
\<close>

theorem staleness_never_recovers:
  assumes "running s" and "last_update s = Some u"
    and "telnet_data_staleness_timeout cfg < clock e0 - u"
    and "\<forall>e \<in> set es. clock e0 \<le> clock e"
  shows "last_update (fst (receiver_loop cfg (e0 # es) s)) = Some u \<and>
         \<not> connected (fst (receiver_loop cfg (e0 # es) s)) \<and>
         Read \<notin> set (snd (receiver_loop cfg (e0 # es) s)) \<and>
         (\<forall>s' e. \<not> connected s' \<and> last_update s' = Some u \<and> clock e0 \<le> clock e \<and>
                 connect_result e = Opened \<longrightarrow>
             snd (receiver_iter cfg e s') = [OpenConnection, CloseWriter])"
proof -
  have late: "\<forall>e \<in> set (e0 # es). telnet_data_staleness_timeout cfg < clock e - u"
    using assms(3,4) by auto
  have "snd (receiver_iter cfg e s') = [OpenConnection, CloseWriter]"
    if "\<not> connected s'" "last_update s' = Some u" "clock e0 \<le> clock e" "connect_result e = Opened"
    for s' e
  proof -
    have "telnet_data_staleness_timeout cfg < clock e - u"
      using assms(3) that(3) by simp
    then show ?thesis using stale_reconnect_iter that by blast
  qed
  then show ?thesis
    using stale_loop [OF assms(1,2) late] by blast
qed

theorem staleness_never_recovers_witness:
  "last_update (fst (receiver_iter sample_params (frame_at 0) (async_start (init sample_params))))
     = Some 0 \<and>
   telnet_data_staleness_timeout sample_params < clock (frame_at 100) - 0 \<and>
   Read \<notin> set (snd (receiver_loop sample_params [frame_at 100, frame_at 101, frame_at 102]
       (fst (receiver_iter sample_params (frame_at 0) (async_start (init sample_params)))))) \<and>
   last_update (fst (receiver_loop sample_params [frame_at 100, frame_at 101, frame_at 102]
       (fst (receiver_iter sample_params (frame_at 0) (async_start (init sample_params))))))
     = Some 0"
proof -
  let ?s = "fst (receiver_iter sample_params (frame_at 0) (async_start (init sample_params)))"
  have run: "running ?s" and u: "last_update ?s = Some 0"
    unfolding after_frame by (simp_all add: async_start_def init_def)
  have late: "telnet_data_staleness_timeout sample_params < clock (frame_at 100) - 0"
    by (simp add: sample_params_def frame_at_def)
  have mono: "\<forall>e \<in> set [frame_at 101, frame_at 102]. clock (frame_at 100) \<le> clock e"
    by (simp add: frame_at_def)
  show ?thesis
    using staleness_never_recovers [OF run u late mono] u late by blast
qed

section \<open>Frame selection and dispatch\<close>

text \<open>
  Claim C4. When the candidate frames of a chunk are \<open>pre\<close>, then \<open>c\<close>, then \<open>post\<close>, no
  frame of \<open>pre\<close> parses and \<open>c\<close> parses to the non-empty map \<open>m\<close>, then processing the chunk
  calls the parser on the frames of \<open>pre\<close> and on \<open>c\<close> and on nothing else, stores \<open>m\<close> with
  the time of storing, counts one parsed message, and then runs the dispatch loop once,
  on the client that holds \<open>m\<close>: the frames of \<open>post\<close> are not parsed, stored or dispatched.
  When the registered handlers leave the registry and the map alone, every one of them is
  called with \<open>m\<close>, in registration order, and \<open>m\<close> is what the store holds afterwards.
  This holds for any number of candidates, two or more included.
\<close>

theorem first_parsing_frame_wins:
  assumes "chunk_frames data = pre @ c # post"
    and "\<forall>l \<in> set pre. parse_fails cfg l"
    and "parses_to cfg c m"
  shows "(\<exists>s0. latest_data s0 = m \<and> last_update s0 = Some (store_clock e) \<and>
        data_callbacks s0 = data_callbacks s \<and>
        process_data cfg e data s =
          (fst (notify_from cfg 0 s0), map Parse pre @ Parse c # snd (notify_from cfg 0 s0))) \<and>
   last_update (fst (process_data cfg e data s)) = Some (store_clock e) \<and>
   messages_parsed (stats (fst (process_data cfg e data s))) = messages_parsed (stats s) + 1 \<and>
   filter is_parse (snd (process_data cfg e data s)) = map Parse (pre @ [c]) \<and>
   (handlers_passive cfg (data_callbacks s) m \<longrightarrow>
      latest_data (fst (process_data cfg e data s)) = m \<and>
      snd (process_data cfg e data s) =
        map Parse pre @ Parse c #
          concat (map (\<lambda>cb. Callback cb m m #
                         (if raises (callback_reaction cfg cb m) then [CallbackError cb] else []))
                   (data_callbacks s)) \<and>
      filter is_callback (snd (process_data cfg e data s)) =
        map (\<lambda>cb. Callback cb m m) (data_callbacks s))"
proof -
  from process_data_first_success [OF assms, of e s] obtain s0 where
    s0: "latest_data s0 = m" "last_update s0 = Some (store_clock e)"
      "data_callbacks s0 = data_callbacks s"
      "messages_parsed (stats s0) = messages_parsed (stats s) + 1"
      "process_data cfg e data s =
          (fst (notify_from cfg 0 s0), map Parse pre @ Parse c # snd (notify_from cfg 0 s0))"
    by blast
  have parses: "filter is_parse (map Parse pre) = map Parse pre"
    by (induction pre) simp_all
  have one: "last_update (fst (process_data cfg e data s)) = Some (store_clock e)"
    and two: "messages_parsed (stats (fst (process_data cfg e data s))) =
      messages_parsed (stats s) + 1"
    using s0 notify_from_frame [of cfg 0 s0] by simp_all
  have three: "filter is_parse (snd (process_data cfg e data s)) = map Parse (pre @ [c])"
    using s0(5) parses notify_from_no_parse [of cfg 0 s0] by simp
  have four: "latest_data (fst (process_data cfg e data s)) = m \<and>
      snd (process_data cfg e data s) =
        map Parse pre @ Parse c #
          concat (map (\<lambda>cb. Callback cb m m #
                         (if raises (callback_reaction cfg cb m) then [CallbackError cb] else []))
                   (data_callbacks s)) \<and>
      filter is_callback (snd (process_data cfg e data s)) =
        map (\<lambda>cb. Callback cb m m) (data_callbacks s)"
    if quiet: "handlers_passive cfg (data_callbacks s) m"
  proof -
    have "handlers_passive cfg (data_callbacks s0) (latest_data s0)"
      using quiet s0(1,3) by simp
    from notify_from_passive [OF this, of 0]
    have n: "notify_from cfg 0 s0 =
        (s0, concat (map (\<lambda>cb. Callback cb m m #
                         (if raises (callback_reaction cfg cb m) then [CallbackError cb] else []))
                   (data_callbacks s)))"
      using s0(1,3) by simp
    have "filter is_callback (snd (process_data cfg e data s)) =
        map (\<lambda>cb. Callback cb m m) (data_callbacks s)"
      using callbacks_of_notifications
        [of m m "\<lambda>cb. raises (callback_reaction cfg cb m)" "data_callbacks s"]
      by (simp add: s0(5) n filter_map comp_def)
    then show ?thesis
      using s0(1) by (simp add: s0(5) n)
  qed
  show ?thesis
    using s0 one two three four by blast
qed

theorem first_parsing_frame_wins_witness:
  "chunk_frames three_frames = [pm] @ [0x70, 0x6D, 0x20, 0x31] # [[0x70, 0x6D, 0x20, 0x32, 0x32]] \<and>
   parse_fails sample_params pm \<and>
   parses_to sample_params [0x70, 0x6D, 0x20, 0x31] [(''length'', 4)] \<and>
   handlers_passive sample_params [Failing, Plain] [(''length'', 4)] \<and>
   snd (process_data sample_params (frame_at 0) three_frames
          (register_callback Plain (register_callback Failing (init sample_params)))) =
     [Parse pm, Parse [0x70, 0x6D, 0x20, 0x31],
      Callback Failing [(''length'', 4)] [(''length'', 4)], CallbackError Failing,
      Callback Plain [(''length'', 4)] [(''length'', 4)]]"
proof -
  have fails: "\<forall>l \<in> set [pm]. parse_fails sample_params l"
    by (simp add: parse_fails_def sample_params_def sample_parse_def)
  have ok: "parses_to sample_params [0x70, 0x6D, 0x20, 0x31] [(''length'', 4)]"
    by (simp add: parses_to_def sample_params_def sample_parse_def pm_def)
  have cbs: "data_callbacks (register_callback Plain (register_callback Failing (init sample_params)))
      = [Failing, Plain]"
    by (simp add: register_callback_def init_def)
  have quiet: "handlers_passive sample_params [Failing, Plain] [(''length'', 4)]"
    by (simp add: handlers_passive_def sample_params_def)
  have reaction: "callback_reaction sample_params = sample_reaction"
    by (simp add: sample_params_def)
  show ?thesis
    using first_parsing_frame_wins [OF three_frames_frames fails ok, of "frame_at 0"
        "register_callback Plain (register_callback Failing (init sample_params))"]
      three_frames_frames fails ok quiet
    by (simp add: cbs reaction)
qed

text \<open>
  Claim C8 fails on the code. With the handlers \<open>Leaving\<close> and \<open>Plain\<close> registered in this
  order, a chunk with the frame \<open>pm 1\<close> is parsed and stored, \<open>Leaving\<close> is called and
  unregisters itself, and the loop over the live list ends: \<open>Plain\<close>, still registered, is
  never called. With \<open>Marking\<close> and \<open>Plain\<close> registered, \<open>Plain\<close> is called with the map as
  \<open>Marking\<close> left it, which is also what the store then holds. In both runs the iteration
  ends normally.
\<close>

theorem dispatch_skips_handler_after_unregister:
  "data_callbacks ((register_callback Plain (register_callback Leaving
      (async_start (init sample_params))))\<lparr>reader := True, writer := True, connected := True\<rparr>)
     = [Leaving, Plain] \<and>
   snd (receiver_iter sample_params (frame_at 0)
     ((register_callback Plain (register_callback Leaving
        (async_start (init sample_params))))\<lparr>reader := True, writer := True, connected := True\<rparr>))
     = [Read, Parse [0x70, 0x6D, 0x20, 0x31],
        Callback Leaving [(''length'', 4)] [(''length'', 4)]] \<and>
   data_callbacks (fst (receiver_iter sample_params (frame_at 0)
     ((register_callback Plain (register_callback Leaving
        (async_start (init sample_params))))\<lparr>reader := True, writer := True, connected := True\<rparr>)))
     = [Plain] \<and>
   snd (receiver_iter sample_params (frame_at 0)
     ((register_callback Plain (register_callback Marking
        (async_start (init sample_params))))\<lparr>reader := True, writer := True, connected := True\<rparr>))
     = [Read, Parse [0x70, 0x6D, 0x20, 0x31],
        Callback Marking [(''length'', 4)] [(''length'', 4)],
        Callback Plain [(''length'', 4), (''_connection'', 1)]
          [(''length'', 4), (''_connection'', 1)]] \<and>
   latest_data (fst (receiver_iter sample_params (frame_at 0)
     ((register_callback Plain (register_callback Marking
        (async_start (init sample_params))))\<lparr>reader := True, writer := True, connected := True\<rparr>)))
     = [(''length'', 4), (''_connection'', 1)]"
  by (simp add: sample_params_def receiver_iter_def read_step_def stale_for_def
      process_data_def decode_data_def utf8_next.simps str_strip_def is_space_def newline_def
      str_startswith_def pm_def Let_def async_start_def init_def frame_at_def sample_parse_def
      register_callback_def unregister_callback_def notify_from.simps after_call_def)

section \<open>The connection callback\<close>

text \<open>
  Claim C1. The client class defines no attribute \<open>register_connection_callback\<close>: the
  coordinator's constructor, which calls it, ends in \<open>AttributeError\<close> on every client.
  The client has one registry, for data; an iteration that takes a connected client to
  disconnected (here: the read returns end of file) reads and calls no handler.
\<close>

theorem register_connection_callback_missing:
  "client_getattr ''register_connection_callback'' = (None :: (handler, 'v) attribute option) \<and>
   coordinator_init (s :: (handler, 'v) client) =
     Inl (AttributeError ''register_connection_callback'') \<and>
   connected (fst (receiver_iter sample_params silent (async_start (init sample_params)))) \<and>
   receiver_iter sample_params (silent\<lparr>read_result := ReadBytes []\<rparr>)
       (fst (receiver_iter sample_params silent (async_start (init sample_params)))) =
     ((fst (receiver_iter sample_params silent (async_start (init sample_params))))
        \<lparr>connected := False, consecutive_timeouts := 0\<rparr>,
      [Read])"
  by (simp add: coordinator_init_def call_with_callback_def client_getattr_def
      other_attributes_def receiver_iter_def read_step_def connect_def stale_for_def Let_def
      async_start_def init_def silent_def sample_params_def)

section \<open>The copy returned by \<open>get_latest_data\<close>\<close>

text \<open>
  Claim C3, as stated, fails: the copy is shallow. On the stored map with the nested entry
  \<open>_connection\<close>, the assignment \<open>returned["_connection"]["connected"] = False\<close> through the
  returned map changes what a reader of the stored map sees.
\<close>

theorem get_latest_data_shares_nested_counterexample:
  "get_latest_data sample_store =
     Some (sample_store\<lparr>objects := objects sample_store @ [[(''_connection'', PRef 1)]]\<rparr>, 2) \<and>
   look 2 (objects sample_store) (PRef (latest_data_ref sample_store)) =
     SDict [(''_connection'', SDict [(''connected'', SBool True)])] \<and>
   nested_setitem (objects sample_store @ [[(''_connection'', PRef 1)]]) 2
       ''_connection'' ''connected'' (PBool False) =
     Some [[(''_connection'', PRef 1)], [(''connected'', PBool False)], [(''_connection'', PRef 1)]] \<and>
   look 2 [[(''_connection'', PRef 1)], [(''connected'', PBool False)], [(''_connection'', PRef 1)]]
       (PRef (latest_data_ref sample_store)) =
     SDict [(''_connection'', SDict [(''connected'', SBool False)])]"
  by (simp add: get_latest_data_def dict_copy_def sample_store_def nested_setitem_def
      dict_getitem_def dict_setitem_def numeral_2_eq_2)

text \<open>
  Claim C3, amended. \<open>get_latest_data\<close> returns a new dict with the entries of the stored
  one, and changes neither \<open>_latest_data\<close> nor \<open>_last_update\<close>. Setting or deleting a key of
  the returned dict changes nothing that a reader of the stored map sees, at any depth,
  and nothing that a later \<open>get_latest_data\<close> returns.
\<close>

theorem get_latest_data_shallow_copy:
  assumes "wf_heap (objects c)" and "get_latest_data c = Some (c1, r)"
  shows "r = length (objects c) \<and>
    objects c1 = objects c @ [objects c ! latest_data_ref c] \<and>
    latest_data_ref c1 = latest_data_ref c \<and>
    last_update_time c1 = last_update_time c \<and>
    (\<forall>k v h2. dict_setitem (objects c1) r k v = Some h2 \<or> dict_delitem (objects c1) r k = Some h2 \<longrightarrow>
       (\<forall>n. look n h2 (PRef (latest_data_ref c)) = look n (objects c) (PRef (latest_data_ref c))) \<and>
       (\<forall>c2 r2 n. get_latest_data (c1\<lparr>objects := h2\<rparr>) = Some (c2, r2) \<longrightarrow>
           look n (objects c2) (PRef r2) = look n (objects c) (PRef (latest_data_ref c))))"
proof -
  let ?h = "objects c" and ?a = "latest_data_ref c"
  have a: "?a < length ?h"
    and c1: "c1 = c\<lparr>objects := ?h @ [?h ! ?a]\<rparr>" and r: "r = length ?h"
    using assms(2) by (auto simp: get_latest_data_def dict_copy_def split: if_splits)
  have later: "(\<forall>n. look n h2 (PRef ?a) = look n ?h (PRef ?a)) \<and>
       (\<forall>c2 r2 n. get_latest_data (c1\<lparr>objects := h2\<rparr>) = Some (c2, r2) \<longrightarrow>
           look n (objects c2) (PRef r2) = look n ?h (PRef ?a))"
    if w: "dict_setitem (objects c1) r k v = Some h2 \<or> dict_delitem (objects c1) r k = Some h2"
    for k v h2
  proof -
    have fr: "length h2 = Suc (length ?h)" "\<forall>b < length ?h. h2 ! b = ?h ! b"
      using top_level_write_frame [of ?h "?h ! ?a" k v h2] w by (simp_all add: c1 r)
    have one: "look n h2 (PRef ?a) = look n ?h (PRef ?a)" for n
      using look_stable [OF assms(1) _ fr(2), of "PRef ?a" n] fr(1) a by simp
    have two: "look n (objects c2) (PRef r2) = look n ?h (PRef ?a)"
      if g: "get_latest_data (c1\<lparr>objects := h2\<rparr>) = Some (c2, r2)" for c2 r2 n
    proof -
      have o2: "objects c2 = h2 @ [h2 ! ?a]" and r2: "r2 = length h2"
        using g by (auto simp: get_latest_data_def dict_copy_def c1 split: if_splits)
      have "look n (h2 @ [h2 ! ?a]) (PRef (length h2)) = look n ?h (PRef ?a)"
      proof (rule look_copy [OF assms(1)])
        show "length ?h \<le> length (h2 @ [h2 ! ?a])" using fr(1) by simp
        show "\<forall>b < length ?h. (h2 @ [h2 ! ?a]) ! b = ?h ! b"
          using fr by (simp add: nth_append)
        show "?a < length ?h" by (rule a)
        show "length h2 < length (h2 @ [h2 ! ?a])" by simp
        have "(h2 @ [h2 ! ?a]) ! length h2 = h2 ! ?a" by (rule nth_append_length)
        then show "(h2 @ [h2 ! ?a]) ! length h2 = ?h ! ?a" using fr(2) a by simp
      qed
      then show ?thesis by (simp add: o2 r2)
    qed
    show ?thesis using one two by blast
  qed
  show ?thesis
    using later by (simp add: c1 r)
qed

theorem get_latest_data_shallow_copy_witness:
  "wf_heap (objects sample_store) \<and>
   get_latest_data sample_store =
     Some (sample_store\<lparr>objects := objects sample_store @ [[(''_connection'', PRef 1)]]\<rparr>, 2) \<and>
   dict_setitem (objects sample_store @ [[(''_connection'', PRef 1)]]) 2 ''_connection'' PNone =
     Some [[(''_connection'', PRef 1)], [(''connected'', PBool True)], [(''_connection'', PNone)]] \<and>
   look 2 [[(''_connection'', PRef 1)], [(''connected'', PBool True)], [(''_connection'', PNone)]]
       (PRef (latest_data_ref sample_store)) =
     look 2 (objects sample_store) (PRef (latest_data_ref sample_store))"
proof -
  have wf: "wf_heap (objects sample_store)"
    by (simp add: wf_heap_def sample_store_def)
  have g: "get_latest_data sample_store =
     Some (sample_store\<lparr>objects := objects sample_store @ [[(''_connection'', PRef 1)]]\<rparr>, 2)"
    by (simp add: get_latest_data_def dict_copy_def sample_store_def)
  have w: "dict_setitem (objects sample_store @ [[(''_connection'', PRef 1)]]) 2 ''_connection'' PNone =
     Some [[(''_connection'', PRef 1)], [(''connected'', PBool True)], [(''_connection'', PNone)]]"
    by (simp add: dict_setitem_def sample_store_def)
  show ?thesis
    using get_latest_data_shallow_copy [OF wf g] wf g w by simp
qed

end
